(* ===== verification/Prelude.thy ===== *)
theory Prelude
  imports Main "HOL-Library.Word" "HOL-Library.Sublist"
begin

text \<open>
  Shared vocabulary of the development: the types the Go program computes with (bytes,
  instants, durations), Go's error values with \<^verbatim>\<open>errors.Is\<close>, \<^verbatim>\<open>errors.Join\<close> and
  \<^verbatim>\<open>Error()\<close>, iteration over a Go map (whose order is unspecified), bounded channels,
  and the generic lemmas on lists and maps that several components use.
  The collection \<open>go_defs\<close> holds the definitions of small library operations that
  proofs unfold together.
\<close>

named_theorems go_defs \<open>definitions of small Go library operations\<close>

section \<open>Basic types\<close>

type_synonym byte = "8 word"

text \<open>
  An instant is a number of nanoseconds since Go's zero \<^verbatim>\<open>time.Time\<close>, so that
  \<^verbatim>\<open>t.IsZero()\<close> is \<open>t = 0\<close>; \<^verbatim>\<open>a.Before(b)\<close> and \<^verbatim>\<open>b.After(a)\<close> are \<open>a < b\<close>.
\<close>

type_synonym gotime = int
type_synonym duration = int

definition millisecond :: duration where
  "millisecond = 1000000"

definition second :: duration where
  "second = 1000 * millisecond"

definition IsZero :: "gotime \<Rightarrow> bool" where
  "IsZero t \<longleftrightarrow> t = 0"

definition Before :: "gotime \<Rightarrow> gotime \<Rightarrow> bool" where
  "Before a b \<longleftrightarrow> a < b"

definition After :: "gotime \<Rightarrow> gotime \<Rightarrow> bool" where
  "After a b \<longleftrightarrow> b < a"

declare IsZero_def [go_defs] Before_def [go_defs] After_def [go_defs]

section \<open>Error values\<close>

text \<open>
  The errors the program compares against with \<^verbatim>\<open>errors.Is\<close> or a type assertion, and
  \<open>OSErr\<close> for every other error the operating system or the library returns.
\<close>

datatype sentinel =
    Canceled | DeadlineExceeded | NetClosed | IOTimeout | NotExist
  | ConnRefused | NoEnt | ServerClosed | MaxBytes | EOF | OSErr string

text \<open>
  \<open>New s\<close> is \<^verbatim>\<open>errors.New(s)\<close> or \<^verbatim>\<open>fmt.Errorf\<close> without a wrapped error,
  \<open>Wrapf pre e post\<close> is \<^verbatim>\<open>fmt.Errorf("pre%wpost", e)\<close>, \<open>Joined es\<close> is the value of
  \<^verbatim>\<open>errors.Join\<close>.
\<close>

datatype goerr = Sentinel sentinel | New string | Wrapf string goerr string | Joined "goerr list"

fun errors_Is :: "goerr \<Rightarrow> sentinel \<Rightarrow> bool" where
  "errors_Is (Sentinel t) s = (t = s)"
| "errors_Is (New _) s = False"
| "errors_Is (Wrapf _ e _) s = errors_Is e s"
| "errors_Is (Joined es) s = list_ex (\<lambda>e. errors_Is e s) es"

text \<open>\<^verbatim>\<open>errors.Join\<close> drops nil errors and is nil when nothing is left.\<close>

definition errors_Join :: "goerr option \<Rightarrow> goerr option \<Rightarrow> goerr option" where
  "errors_Join a b =
     (case (a, b) of
        (None, None) \<Rightarrow> None
      | (Some e, None) \<Rightarrow> Some (Joined [e])
      | (None, Some f) \<Rightarrow> Some (Joined [f])
      | (Some e, Some f) \<Rightarrow> Some (Joined [e, f]))"

text \<open>The \<^verbatim>\<open>err.(net.Error)\<close> assertion followed by \<^verbatim>\<open>Timeout()\<close>.\<close>

fun is_net_timeout :: "goerr \<Rightarrow> bool" where
  "is_net_timeout (Sentinel IOTimeout) = True"
| "is_net_timeout (Sentinel DeadlineExceeded) = True"
| "is_net_timeout _ = False"

fun sentinel_string :: "sentinel \<Rightarrow> string" where
  "sentinel_string Canceled = ''context canceled''"
| "sentinel_string DeadlineExceeded = ''context deadline exceeded''"
| "sentinel_string NetClosed = ''use of closed network connection''"
| "sentinel_string IOTimeout = ''i/o timeout''"
| "sentinel_string NotExist = ''file does not exist''"
| "sentinel_string ConnRefused = ''connection refused''"
| "sentinel_string NoEnt = ''no such file or directory''"
| "sentinel_string ServerClosed = ''http: Server closed''"
| "sentinel_string MaxBytes = ''http: request body too large''"
| "sentinel_string EOF = ''EOF''"
| "sentinel_string (OSErr s) = s"

fun sep_concat :: "string \<Rightarrow> string list \<Rightarrow> string" where
  "sep_concat sep [] = []"
| "sep_concat sep [x] = x"
| "sep_concat sep (x # y # ys) = x @ sep @ sep_concat sep (y # ys)"

fun error_string :: "goerr \<Rightarrow> string" where
  "error_string (Sentinel t) = sentinel_string t"
| "error_string (New s) = s"
| "error_string (Wrapf pre e post) = pre @ error_string e @ post"
| "error_string (Joined es) = sep_concat [CHR 0x0A] (map error_string es)"

lemma errors_Join_None [simp]: "errors_Join a b = None \<longleftrightarrow> a = None \<and> b = None"
  by (auto simp: errors_Join_def split: option.splits)

lemma errors_Join_simps [simp]:
  "errors_Join None None = None"
  "errors_Join (Some e) None = Some (Joined [e])"
  "errors_Join None (Some f) = Some (Joined [f])"
  "errors_Join (Some e) (Some f) = Some (Joined [e, f])"
  by (simp_all add: errors_Join_def)

lemma errors_Join_Is:
  "errors_Join a b = Some e \<Longrightarrow>
   errors_Is e s \<longleftrightarrow> (\<exists>x. (a = Some x \<or> b = Some x) \<and> errors_Is x s)"
  by (auto simp: errors_Join_def split: option.splits)

section \<open>Results\<close>

text \<open>A Go call that returns \<open>(value, error)\<close> is a sum: \<open>Inl\<close> the error, \<open>Inr\<close> the value.\<close>

type_synonym 'a result = "goerr + 'a"

section \<open>Go maps\<close>

text \<open>
  A Go map is a partial function with a finite domain. \<^verbatim>\<open>for k := range m\<close> visits every
  key once in an order the language leaves open: the visiting order is a list that
  \<open>enumerates\<close> the map, and theorems hold for every such list.
\<close>

definition enumerates :: "'k list \<Rightarrow> 'k set \<Rightarrow> bool" where
  "enumerates ks S \<longleftrightarrow> distinct ks \<and> set ks = S"

lemma enumeratesI: "distinct ks \<Longrightarrow> set ks = S \<Longrightarrow> enumerates ks S"
  by (simp add: enumerates_def)

lemma enumerates_distinct [dest]: "enumerates ks S \<Longrightarrow> distinct ks"
  by (simp add: enumerates_def)

lemma enumerates_set: "enumerates ks S \<Longrightarrow> set ks = S"
  by (simp add: enumerates_def)

lemma enumerates_finite: "enumerates ks S \<Longrightarrow> finite S"
  by (auto simp: enumerates_def)

lemma enumerates_length: "enumerates ks S \<Longrightarrow> length ks = card S"
  by (auto simp: enumerates_def distinct_card)

text \<open>Keeping the entries of a map whose key and value satisfy a predicate.\<close>

definition filter_map :: "('k \<Rightarrow> 'v \<Rightarrow> bool) \<Rightarrow> ('k \<rightharpoonup> 'v) \<Rightarrow> ('k \<rightharpoonup> 'v)" where
  "filter_map P m = (\<lambda>k. case m k of None \<Rightarrow> None | Some v \<Rightarrow> if P k v then Some v else None)"

lemma filter_map_Some [simp]: "filter_map P m k = Some v \<longleftrightarrow> m k = Some v \<and> P k v"
  by (auto simp: filter_map_def split: option.splits)

lemma filter_map_None: "filter_map P m k = None \<longleftrightarrow> (\<forall>v. m k = Some v \<longrightarrow> \<not> P k v)"
  by (auto simp: filter_map_def split: option.splits)

lemma filter_map_empty [simp]: "filter_map P Map.empty = Map.empty"
  by (simp add: filter_map_def fun_eq_iff)

lemma dom_filter_map: "dom (filter_map P m) = {k. \<exists>v. m k = Some v \<and> P k v}"
  by (auto simp: dom_def)

lemma dom_filter_map_subset: "dom (filter_map P m) \<subseteq> dom m"
  by (auto simp: dom_def)

lemma finite_dom_filter_map: "finite (dom m) \<Longrightarrow> finite (dom (filter_map P m))"
  by (rule finite_subset [OF dom_filter_map_subset])

text \<open>Deleting one key of a map that is injective on its values.\<close>

lemma ran_delete:
  assumes inj: "\<And>a b q. m a = Some q \<Longrightarrow> m b = Some q \<Longrightarrow> a = b" and "m p = Some i"
  shows "ran (m(p := None)) = ran m - {i}"
proof -
  have "x \<in> ran (m(p := None)) \<longleftrightarrow> (\<exists>q. q \<noteq> p \<and> m q = Some x)" for x
    by (auto simp: ran_def split: if_split_asm)
  moreover have "m q = Some x \<and> q \<noteq> p \<longleftrightarrow> m q = Some x \<and> x \<noteq> i" for q x
    using inj [of q i p] assms(2) by auto
  ultimately show ?thesis unfolding ran_def by blast
qed

section \<open>Decimal text\<close>

fun nat_text :: "nat \<Rightarrow> string" where
  "nat_text n = (if n < 10 then [char_of (48 + n)] else nat_text (n div 10) @ [char_of (48 + n mod 10)])"

declare nat_text.simps [simp del]

definition itoa :: "int \<Rightarrow> string" where
  "itoa i = (if i < 0 then CHR ''-'' # nat_text (nat (- i)) else nat_text (nat i))"

lemma nat_text_nonempty: "nat_text n \<noteq> []"
  by (subst nat_text.simps) simp

section \<open>Lists\<close>

lemma foldl_invariant:
  assumes "P s" and "\<And>s x. x \<in> set xs \<Longrightarrow> P s \<Longrightarrow> P (f s x)"
  shows "P (foldl f s xs)"
  using assms by (induction xs arbitrary: s) auto

lemma sep_concat_Cons: "xs \<noteq> [] \<Longrightarrow> sep_concat sep (x # xs) = x @ sep @ sep_concat sep xs"
  by (cases xs) auto

end
