(* ===== verification/GoStrings.thy ===== *)
theory GoStrings
  imports Prelude
begin

text \<open>
  The functions of Go's \<^verbatim>\<open>strings\<close>, \<^verbatim>\<open>path/filepath\<close> and \<^verbatim>\<open>regexp\<close> packages that the
  program calls, on strings of bytes: trimming of white space (with the UTF-8 encodings of
  the Unicode spaces), splitting and joining, lexical path cleaning, and the program's two
  regular expressions. The lemmas show that joining undoes splitting and that cleaning a
  path is idempotent.
\<close>

section \<open>Substrings\<close>

definition HasPrefix :: "string \<Rightarrow> string \<Rightarrow> bool" where
  "HasPrefix s p = prefix p s"

definition HasSuffix :: "string \<Rightarrow> string \<Rightarrow> bool" where
  "HasSuffix s p = suffix p s"

fun Contains :: "string \<Rightarrow> string \<Rightarrow> bool" where
  "Contains [] sub = (sub = [])"
| "Contains (c # cs) sub = (prefix sub (c # cs) \<or> Contains cs sub)"

declare HasPrefix_def [go_defs] HasSuffix_def [go_defs]

lemma Contains_iff_sublist: "Contains s sub \<longleftrightarrow> sublist sub s"
  by (induction s) (auto simp: sublist_Cons_right)

section \<open>Trimming\<close>

text \<open>
  The byte encodings of the code points for which \<^verbatim>\<open>unicode.IsSpace\<close> holds: the six ASCII
  spaces, U+0085, U+00A0, U+1680, U+2000 to U+200A, U+2028, U+2029, U+202F, U+205F, U+3000.
\<close>

definition space_runes :: "string list" where
  "space_runes =
     [[CHR 0x09], [CHR 0x0A], [CHR 0x0B], [CHR 0x0C], [CHR 0x0D], [CHR 0x20],
      [CHR 0xC2, CHR 0x85], [CHR 0xC2, CHR 0xA0], [CHR 0xE1, CHR 0x9A, CHR 0x80],
      [CHR 0xE2, CHR 0x80, CHR 0x80], [CHR 0xE2, CHR 0x80, CHR 0x81],
      [CHR 0xE2, CHR 0x80, CHR 0x82], [CHR 0xE2, CHR 0x80, CHR 0x83],
      [CHR 0xE2, CHR 0x80, CHR 0x84], [CHR 0xE2, CHR 0x80, CHR 0x85],
      [CHR 0xE2, CHR 0x80, CHR 0x86], [CHR 0xE2, CHR 0x80, CHR 0x87],
      [CHR 0xE2, CHR 0x80, CHR 0x88], [CHR 0xE2, CHR 0x80, CHR 0x89],
      [CHR 0xE2, CHR 0x80, CHR 0x8A], [CHR 0xE2, CHR 0x80, CHR 0xA8],
      [CHR 0xE2, CHR 0x80, CHR 0xA9], [CHR 0xE2, CHR 0x80, CHR 0xAF],
      [CHR 0xE2, CHR 0x81, CHR 0x9F], [CHR 0xE3, CHR 0x80, CHR 0x80]]"

function trim_runes :: "string list \<Rightarrow> string \<Rightarrow> string" where
  "trim_runes rs s =
     (case find (\<lambda>r. r \<noteq> [] \<and> prefix r s) rs of
        None \<Rightarrow> s
      | Some r \<Rightarrow> trim_runes rs (drop (length r) s))"
  by pat_completeness auto
termination
  by (relation "measure (\<lambda>(rs, s). length s)") (auto simp: find_Some_iff prefix_def)

declare trim_runes.simps [simp del]

definition TrimSpace :: "string \<Rightarrow> string" where
  "TrimSpace s = rev (trim_runes (map rev space_runes) (rev (trim_runes space_runes s)))"

lemma trim_runes_unchanged:
  "(\<And>r. r \<in> set rs \<Longrightarrow> r \<noteq> [] \<Longrightarrow> \<not> prefix r s) \<Longrightarrow> trim_runes rs s = s"
  by (subst trim_runes.simps) (auto simp: find_Some_iff split: option.split)

text \<open>A string whose first and last bytes start and end no space is left alone.\<close>

lemma trim_runes_head:
  assumes "\<And>r. r \<in> set rs \<Longrightarrow> r \<noteq> [] \<Longrightarrow> hd r \<noteq> c"
  shows "trim_runes rs (c # cs) = c # cs"
  by (rule trim_runes_unchanged) (use assms in \<open>force simp: prefix_def Cons_eq_append_conv\<close>)

lemma TrimSpace_unchanged:
  assumes "c \<notin> hd ` set space_runes" and "d \<notin> last ` set space_runes"
    and "s = c # cs" and "s = ds @ [d]"
  shows "TrimSpace s = s"
proof -
  have 1: "trim_runes space_runes s = s"
    unfolding assms(3) by (rule trim_runes_head) (use assms(1) in auto)
  have "trim_runes (map rev space_runes) (rev s) = rev s"
    unfolding assms(4) rev_append rev.simps append.simps
    by (rule trim_runes_head) (use assms(2) in \<open>auto simp: hd_rev\<close>)
  with 1 show ?thesis by (simp add: TrimSpace_def)
qed

section \<open>Splitting at a byte\<close>

fun split_on :: "char \<Rightarrow> string \<Rightarrow> string list" where
  "split_on c [] = [[]]"
| "split_on c (x # xs) =
     (if x = c then [] # split_on c xs
      else (case split_on c xs of [] \<Rightarrow> [[x]] | y # ys \<Rightarrow> (x # y) # ys))"

lemma split_on_nonempty [simp]: "split_on c s \<noteq> []"
  by (cases s) (auto split: list.split)

lemma split_on_no_sep: "p \<in> set (split_on c s) \<Longrightarrow> c \<notin> set p"
proof (induction s arbitrary: p)
  case (Cons x xs)
  then show ?case
    by (cases "split_on c xs") (auto split: if_splits)
qed simp

lemma sep_concat_split_on: "sep_concat [c] (split_on c s) = s"
proof (induction s)
  case (Cons x xs)
  obtain y ys where y: "split_on c xs = y # ys"
    by (cases "split_on c xs") auto
  show ?case
  proof (cases "x = c")
    case True
    with Cons y show ?thesis by (simp add: sep_concat_Cons)
  next
    case False
    with Cons y show ?thesis by (cases ys) auto
  qed
qed simp

lemma split_on_append_sep:
  "c \<notin> set p \<Longrightarrow> split_on c (p @ c # s) = p # split_on c s"
  by (induction p) auto

lemma split_on_single: "c \<notin> set p \<Longrightarrow> split_on c p = [p]"
  by (induction p) auto

lemma split_on_sep_concat:
  "ps \<noteq> [] \<Longrightarrow> (\<And>p. p \<in> set ps \<Longrightarrow> c \<notin> set p) \<Longrightarrow> split_on c (sep_concat [c] ps) = ps"
proof (induction "[c]" ps rule: sep_concat.induct)
  case (2 x)
  then show ?case by (simp add: split_on_single)
next
  case (3 x y ys)
  then show ?case by (simp add: split_on_append_sep)
qed simp

section \<open>filepath.Clean\<close>

text \<open>
  The elements of the path are processed from the left on a stack: empty elements and
  \<open>.\<close> disappear, \<open>..\<close> removes the element before it, a rooted path has no parent at its
  root, and the empty result is \<open>.\<close>.
\<close>

definition clean_step :: "bool \<Rightarrow> string list \<Rightarrow> string \<Rightarrow> string list" where
  "clean_step rooted st e =
     (if e = [] \<or> e = ''.'' then st
      else if e = ''..'' then
        (case st of
           [] \<Rightarrow> if rooted then [] else [''..'']
         | t # ts \<Rightarrow> if t = ''..'' then ''..'' # st else ts)
      else e # st)"

definition IsAbs :: "string \<Rightarrow> bool" where
  "IsAbs s = prefix ''/'' s"

definition clean_stack :: "string \<Rightarrow> string list" where
  "clean_stack s = foldl (clean_step (IsAbs s)) [] (split_on CHR ''/'' s)"

definition Clean :: "string \<Rightarrow> string" where
  "Clean s =
     (let body = sep_concat ''/'' (rev (clean_stack s))
      in if IsAbs s then ''/'' @ body else if body = [] then ''.'' else body)"

text \<open>What the stack of a cleaned path looks like.\<close>

definition plain_element :: "string \<Rightarrow> bool" where
  "plain_element e \<longleftrightarrow> e \<noteq> [] \<and> e \<noteq> ''.'' \<and> e \<noteq> ''..'' \<and> CHR ''/'' \<notin> set e"

fun clean_stack_ok :: "bool \<Rightarrow> string list \<Rightarrow> bool" where
  "clean_stack_ok rooted [] = True"
| "clean_stack_ok rooted (e # st) =
     ((plain_element e \<and> clean_stack_ok rooted st)
      \<or> (\<not> rooted \<and> e = ''..'' \<and> (\<forall>x \<in> set st. x = ''..'')))"

lemma all_dots_ok: "\<not> rooted \<Longrightarrow> \<forall>x \<in> set st. x = ''..'' \<Longrightarrow> clean_stack_ok rooted st"
  by (induction st) auto

lemma dotdot_not_plain: "\<not> plain_element ''..''"
  by (simp add: plain_element_def)

lemma clean_step_ok:
  assumes "clean_stack_ok rooted st" and "CHR ''/'' \<notin> set e"
  shows "clean_stack_ok rooted (clean_step rooted st e)"
  using assms
  by (cases st) (auto simp: clean_step_def plain_element_def intro: all_dots_ok)

lemma clean_stack_stack_ok: "clean_stack_ok (IsAbs s) (clean_stack s)"
  unfolding clean_stack_def
  by (rule foldl_invariant) (auto intro!: clean_step_ok dest: split_on_no_sep)

lemma clean_stack_ok_rooted:
  "clean_stack_ok True st \<longleftrightarrow> (\<forall>e \<in> set st. plain_element e)"
  by (induction st) auto

lemma clean_step_simps [simp]:
  "clean_step rooted st [] = st"
  "plain_element e \<Longrightarrow> clean_step rooted st e = e # st"
  by (auto simp: clean_step_def plain_element_def)

lemma clean_step_dotdot:
  "\<not> rooted \<Longrightarrow> \<forall>x \<in> set st. x = ''..'' \<Longrightarrow> clean_step rooted st ''..'' = ''..'' # st"
  by (cases st) (auto simp: clean_step_def)

text \<open>Cleaning the elements of a clean stack again rebuilds the stack.\<close>

lemma clean_foldl_fixpoint:
  "clean_stack_ok rooted st \<Longrightarrow> foldl (clean_step rooted) [] (rev st) = st"
proof (induction st)
  case (Cons e st)
  show ?case
  proof (cases "plain_element e")
    case True
    with Cons.prems have "clean_stack_ok rooted st" by (auto intro: all_dots_ok)
    with True Cons.IH show ?thesis by simp
  next
    case False
    with Cons.prems have dots: "\<not> rooted" "e = ''..''" "\<forall>x \<in> set st. x = ''..''" by auto
    then have "foldl (clean_step rooted) [] (rev st) = st"
      using Cons.IH all_dots_ok by blast
    then show ?thesis using clean_step_dotdot [OF dots(1,3)] dots(2) by simp
  qed
qed simp

lemma clean_stack_elements:
  "clean_stack_ok rooted st \<Longrightarrow> e \<in> set st \<Longrightarrow> e \<noteq> [] \<and> CHR ''/'' \<notin> set e"
proof (induction st)
  case (Cons a st)
  have dd: "x \<noteq> [] \<and> CHR ''/'' \<notin> set x" if "x = ''..''" for x :: string
    using that by simp
  from Cons.prems(1) consider "plain_element a" "clean_stack_ok rooted st"
    | "a = ''..''" "\<And>x. x \<in> set st \<Longrightarrow> x = ''..''" by auto
  then show ?case
  proof cases
    case 1
    with Cons.IH Cons.prems(2) show ?thesis by (auto simp: plain_element_def)
  next
    case 2
    with Cons.prems(2) have "e = ''..''" by (metis set_ConsD)
    then show ?thesis by (rule dd)
  qed
qed simp

lemma sep_concat_nonempty:
  "xs \<noteq> [] \<Longrightarrow> hd xs \<noteq> [] \<Longrightarrow> sep_concat sep xs \<noteq> []"
  by (cases "(sep, xs)" rule: sep_concat.cases) auto

lemma sep_concat_hd:
  "xs \<noteq> [] \<Longrightarrow> hd xs \<noteq> [] \<Longrightarrow> hd (sep_concat sep xs) = hd (hd xs)"
  by (cases "(sep, xs)" rule: sep_concat.cases) auto

lemma IsAbs_Cons [simp]: "IsAbs (c # cs) \<longleftrightarrow> c = CHR ''/''" and IsAbs_Nil [simp]: "\<not> IsAbs []"
  by (auto simp: IsAbs_def)

lemma IsAbs_body:
  assumes "clean_stack_ok rooted st" and "st \<noteq> []"
  shows "\<not> IsAbs (sep_concat sep (rev st))"
proof -
  have "hd (rev st) \<in> set st" using assms(2) by (metis hd_in_set rev_is_Nil_conv set_rev)
  with assms have h: "hd (rev st) \<noteq> []" "CHR ''/'' \<notin> set (hd (rev st))"
    using clean_stack_elements by blast+
  then have "hd (sep_concat sep (rev st)) \<noteq> CHR ''/''"
    using sep_concat_hd [of "rev st" sep] assms(2) by (metis hd_in_set rev_is_Nil_conv)
  then show ?thesis
    by (cases "sep_concat sep (rev st)") auto
qed

lemma foldl_clean_split_body:
  assumes "clean_stack_ok rooted st"
  shows "foldl (clean_step rooted) [] (split_on CHR ''/'' (sep_concat ''/'' (rev st))) = st"
proof (cases "st = []")
  case False
  then have "split_on CHR ''/'' (sep_concat ''/'' (rev st)) = rev st"
    using clean_stack_elements [OF assms] by (intro split_on_sep_concat) auto
  with assms show ?thesis by (simp add: clean_foldl_fixpoint)
qed simp

lemma IsAbs_Clean [simp]: "IsAbs (Clean s) \<longleftrightarrow> IsAbs s"
  using IsAbs_body [OF clean_stack_stack_ok, of s]
  by (cases "clean_stack s = []") (auto simp: Clean_def Let_def)

lemma clean_stack_Clean: "clean_stack (Clean s) = clean_stack s"
proof -
  note ok = clean_stack_stack_ok [of s]
  note fix_body = foldl_clean_split_body [OF ok]
  consider (abs) "IsAbs s" | (dot) "\<not> IsAbs s" "sep_concat ''/'' (rev (clean_stack s)) = []"
    | (rel) "\<not> IsAbs s" "sep_concat ''/'' (rev (clean_stack s)) \<noteq> []" by blast
  then show ?thesis
  proof cases
    case abs
    then have "clean_stack (Clean s) =
        foldl (clean_step True) (clean_step True [] []) (split_on CHR ''/'' (sep_concat ''/'' (rev (clean_stack s))))"
      by (simp add: clean_stack_def [of "Clean s"]) (simp add: Clean_def)
    then show ?thesis using fix_body abs by (simp add: clean_step_def)
  next
    case dot
    then have "clean_stack s = []"
      using sep_concat_nonempty [of "rev (clean_stack s)" "''/''"] clean_stack_elements [OF ok]
      by (metis hd_in_set rev_is_Nil_conv set_rev)
    with dot show ?thesis
      by (simp add: clean_stack_def [of "Clean s"]) (simp add: Clean_def clean_step_def)
  next
    case rel
    then show ?thesis using fix_body
      by (simp add: clean_stack_def [of "Clean s"]) (simp add: Clean_def)
  qed
qed

lemma Clean_Clean: "Clean (Clean s) = Clean s"
  unfolding Clean_def [of "Clean s"] clean_stack_Clean IsAbs_Clean by (simp add: Clean_def)

lemma Clean_abs_form:
  "IsAbs s \<Longrightarrow> \<exists>es. Clean s = ''/'' @ sep_concat ''/'' es \<and> (\<forall>e \<in> set es. plain_element e)"
  using clean_stack_stack_ok [of s]
  by (intro exI [of _ "rev (clean_stack s)"]) (auto simp: Clean_def clean_stack_ok_rooted)

lemma Clean_abs_fixpoint:
  assumes "es \<noteq> []" and "\<And>e. e \<in> set es \<Longrightarrow> plain_element e"
  shows "Clean (''/'' @ sep_concat ''/'' es) = ''/'' @ sep_concat ''/'' es"
proof -
  have ok: "clean_stack_ok True (rev es)" using assms(2) by (simp add: clean_stack_ok_rooted)
  have "clean_stack (''/'' @ sep_concat ''/'' es) = rev es"
    using foldl_clean_split_body [OF ok] by (simp add: clean_stack_def clean_step_def)
  then show ?thesis by (simp add: Clean_def)
qed

section \<open>The program's regular expressions\<close>

definition is_digit :: "char \<Rightarrow> bool" where
  "is_digit c \<longleftrightarrow> c \<in> set ''0123456789''"

definition is_lower_hex :: "char \<Rightarrow> bool" where
  "is_lower_hex c \<longleftrightarrow> c \<in> set ''0123456789abcdef''"

text \<open>\<^verbatim>\<open>^[0-9]+suffix$\<close>, as a left-to-right scan.\<close>

definition match_digits_then :: "string \<Rightarrow> string \<Rightarrow> bool" where
  "match_digits_then suf s \<longleftrightarrow> takeWhile is_digit s \<noteq> [] \<and> dropWhile is_digit s = suf"

lemma match_digits_then_iff:
  assumes "suf = [] \<or> \<not> is_digit (hd suf)"
  shows "match_digits_then suf s \<longleftrightarrow> (\<exists>ds. ds \<noteq> [] \<and> (\<forall>d \<in> set ds. is_digit d) \<and> s = ds @ suf)"
proof
  assume "match_digits_then suf s"
  then show "\<exists>ds. ds \<noteq> [] \<and> (\<forall>d \<in> set ds. is_digit d) \<and> s = ds @ suf"
    unfolding match_digits_then_def
    by (intro exI [of _ "takeWhile is_digit s"]) (auto dest: set_takeWhileD)
next
  assume "\<exists>ds. ds \<noteq> [] \<and> (\<forall>d \<in> set ds. is_digit d) \<and> s = ds @ suf"
  with assms show "match_digits_then suf s"
    unfolding match_digits_then_def by (cases suf) (auto simp: takeWhile_eq_Nil_iff)
qed

section \<open>Hexadecimal text\<close>

definition hex_digit :: "nat \<Rightarrow> char" where
  "hex_digit n = ''0123456789abcdef'' ! n"

definition EncodeToString :: "byte list \<Rightarrow> string" where
  "EncodeToString bs = concat (map (\<lambda>b. [hex_digit (unat b div 16), hex_digit (unat b mod 16)]) bs)"

lemma length_EncodeToString: "length (EncodeToString bs) = 2 * length bs"
  by (induction bs) (auto simp: EncodeToString_def)

end
