(* ===== verification/GoNet.thy ===== *)
theory GoNet
  imports GoStrings
begin

text \<open>
  The parts of Go's \<^verbatim>\<open>net\<close> and \<^verbatim>\<open>encoding/binary\<close> packages the program computes with:
  \<^verbatim>\<open>net.IP\<close> as a byte list (nil is the empty list), \<^verbatim>\<open>net.UDPAddr\<close> as a record, the
  address tests, their text form, and big-endian 16-bit integers.
\<close>

unbundle bit_operations_syntax

section \<open>IP addresses\<close>

type_synonym ip = "byte list"

definition v4InV6Prefix :: ip where
  "v4InV6Prefix = [0, 0, 0, 0, 0, 0, 0, 0, 0, 0, 0xff, 0xff]"

definition To4 :: "ip \<Rightarrow> ip option" where
  "To4 a =
     (if length a = 4 then Some a
      else if length a = 16 \<and> take 12 a = v4InV6Prefix then Some (drop 12 a)
      else None)"

definition To16 :: "ip \<Rightarrow> ip option" where
  "To16 a =
     (if length a = 4 then Some (v4InV6Prefix @ a)
      else if length a = 16 then Some a
      else None)"

definition IP_Equal :: "ip \<Rightarrow> ip \<Rightarrow> bool" where
  "IP_Equal a b =
     (if length a = length b then a = b
      else if length a = 4 \<and> length b = 16 then take 12 b = v4InV6Prefix \<and> a = drop 12 b
      else if length a = 16 \<and> length b = 4 then take 12 a = v4InV6Prefix \<and> drop 12 a = b
      else False)"

definition IsMulticast :: "ip \<Rightarrow> bool" where
  "IsMulticast a =
     (case To4 a of
        Some v \<Rightarrow> hd v AND 0xf0 = 0xe0
      | None \<Rightarrow> length a = 16 \<and> hd a = 0xff)"

definition IPv4zero :: ip where
  "IPv4zero = v4InV6Prefix @ [0, 0, 0, 0]"

definition IPv6unspecified :: ip where
  "IPv6unspecified = replicate 16 0"

definition IsUnspecified :: "ip \<Rightarrow> bool" where
  "IsUnspecified a = (IP_Equal a IPv4zero \<or> IP_Equal a IPv6unspecified)"

lemma length_v4InV6Prefix [simp]: "length v4InV6Prefix = 12"
  by (simp add: v4InV6Prefix_def)

lemma To4_length: "To4 a = Some v \<Longrightarrow> length v = 4"
  by (auto simp: To4_def split: if_splits)

lemma To16_length: "To16 a = Some v \<Longrightarrow> length v = 16"
  by (auto simp: To16_def split: if_splits)

lemma To4_imp_To16: "To4 a = Some v \<Longrightarrow> To16 a = Some (v4InV6Prefix @ v)"
  by (auto simp: To4_def To16_def split: if_splits) (metis append_take_drop_id)

lemma To16_None_iff: "To16 a = None \<longleftrightarrow> length a \<noteq> 4 \<and> length a \<noteq> 16"
  by (simp add: To16_def)

lemma To4_None_imp: "To4 a = None \<Longrightarrow> length a \<noteq> 4"
  by (auto simp: To4_def split: if_splits)

lemma IP_Equal_refl [simp]: "IP_Equal a a"
  by (simp add: IP_Equal_def)

text \<open>On valid addresses, \<^verbatim>\<open>Equal\<close> is equality of the 16-byte forms.\<close>

lemma IP_Equal_iff_To16:
  assumes "To16 a = Some u" and "To16 b = Some v"
  shows "IP_Equal a b \<longleftrightarrow> u = v"
proof -
  have split16: "take 12 x = v4InV6Prefix \<and> drop 12 x = y \<longleftrightarrow> x = v4InV6Prefix @ y"
    for x y :: ip
    by (metis append_eq_conv_conj append_take_drop_id length_v4InV6Prefix)
  show ?thesis using assms split16 [of b a] split16 [of a b]
    by (auto simp: To16_def IP_Equal_def split: if_splits)
qed

section \<open>UDP addresses\<close>

record udp_addr =
  addr_IP :: ip
  addr_Port :: int
  addr_Zone :: string

section \<open>Text of addresses\<close>

fun nat_hex :: "nat \<Rightarrow> string" where
  "nat_hex n = (if n < 16 then [hex_digit n] else nat_hex (n div 16) @ [hex_digit (n mod 16)])"

declare nat_hex.simps [simp del]

fun ip6_groups :: "ip \<Rightarrow> nat list" where
  "ip6_groups (a # b # r) = (256 * unat a + unat b) # ip6_groups r"
| "ip6_groups _ = []"

text \<open>The first longest run of at least two zero groups is written \<^verbatim>\<open>::\<close>.\<close>

definition zero_run :: "nat list \<Rightarrow> nat \<Rightarrow> nat" where
  "zero_run gs i = length (takeWhile (\<lambda>g. g = 0) (drop i gs))"

definition longest_zero_run :: "nat list \<Rightarrow> nat \<times> nat" where
  "longest_zero_run gs =
     foldl (\<lambda>(s, l) i. if 2 \<le> zero_run gs i \<and> l < zero_run gs i then (i, zero_run gs i) else (s, l))
       (length gs, 0) [0..<length gs]"

definition ip6_string :: "ip \<Rightarrow> string" where
  "ip6_string a =
     (let gs = ip6_groups a; (s, l) = longest_zero_run gs
      in if l = 0 then sep_concat '':'' (map nat_hex gs)
         else sep_concat '':'' (map nat_hex (take s gs)) @ ''::'' @
              sep_concat '':'' (map nat_hex (drop (s + l) gs)))"

definition ip_String :: "ip \<Rightarrow> string" where
  "ip_String a =
     (if a = [] then ''<nil>''
      else case To4 a of
        Some v \<Rightarrow> sep_concat ''.'' (map (\<lambda>b. nat_text (unat b)) v)
      | None \<Rightarrow> if length a = 16 then ip6_string a else ''?'' @ EncodeToString a)"

definition JoinHostPort :: "string \<Rightarrow> string \<Rightarrow> string" where
  "JoinHostPort host port =
     (if CHR '':'' \<in> set host then ''['' @ host @ '']:'' @ port else host @ '':'' @ port)"

definition udp_String :: "udp_addr \<Rightarrow> string" where
  "udp_String a =
     (let host = (if addr_IP a = [] then [] else ip_String (addr_IP a))
      in JoinHostPort (if addr_Zone a = [] then host else host @ ''%'' @ addr_Zone a)
           (itoa (addr_Port a)))"

section \<open>Big-endian 16-bit integers\<close>

definition PutUint16 :: "16 word \<Rightarrow> byte list" where
  "PutUint16 w = [ucast (drop_bit 8 w), ucast w]"

fun Uint16 :: "byte list \<Rightarrow> 16 word" where
  "Uint16 (a # b # _) = push_bit 8 (ucast a) OR ucast b"
| "Uint16 _ = 0"

lemma length_PutUint16 [simp]: "length (PutUint16 w) = 2"
  by (simp add: PutUint16_def)

lemma Uint16_PutUint16 [simp]: "Uint16 (PutUint16 w @ r) = w"
  by (rule bit_word_eqI) (auto simp: PutUint16_def bit_simps)

lemma unat_byte: "unat (b :: byte) < 256"
  using unsigned_less [of b] by simp

lemma unat_Uint16: "unat (Uint16 (a # b # r)) = 256 * unat a + unat b"
proof -
  have "push_bit 8 (ucast a) OR ucast b = (push_bit 8 (ucast a) + ucast b :: 16 word)"
    by (rule disjunctive_add [symmetric]) (auto simp: bit_simps dest: bit_imp_le_length)
  moreover have "unat (push_bit 8 (ucast a :: 16 word)) = 256 * unat a"
    using unat_byte [of a]
    by (simp add: push_bit_eq_mult unat_word_ariths unsigned_ucast_eq take_bit_nat_eq_self)
  moreover have "unat (ucast b :: 16 word) = unat b"
    using unat_byte [of b] by (simp add: unsigned_ucast_eq take_bit_nat_eq_self)
  ultimately show ?thesis
    using unat_byte [of a] unat_byte [of b] by (simp add: unat_word_ariths)
qed

declare Uint16.simps [simp del]

end
