(* ===== verification/Netns.thy ===== *)
theory Netns
  imports GoNet
begin

text \<open>
  \<^verbatim>\<open>internal/netns/netns.go\<close>: canonical namespace paths, namespace handles, and running a
  function inside a namespace on a locked OS thread. The \<^verbatim>\<open>vishvananda/netns\<close> and
  \<^verbatim>\<open>x/sys/unix\<close> calls are the fields of a record that every operation takes; the state
  \<open>'w\<close> of the kernel is theirs. \<open>netns_laws\<close> is what \<^verbatim>\<open>setns(2)\<close>, \<^verbatim>\<open>open(2)\<close> and
  \<^verbatim>\<open>close(2)\<close> document: which namespace the calling thread is in and which namespace an
  open descriptor refers to.
\<close>

section \<open>Canonical paths\<close>

definition CanonicalizePath :: "string \<Rightarrow> string result" where
  "CanonicalizePath path =
     (let cleaned = Clean (TrimSpace path)
      in if cleaned = '''' \<or> cleaned = ''.'' then Inl (New ''namespace path is required'')
         else if \<not> IsAbs cleaned then Inl (New (''namespace path must be absolute: '' @ path))
         else Inr cleaned)"

lemma CanonicalizePath_Inr_iff:
  "CanonicalizePath path = Inr c \<longleftrightarrow> IsAbs (TrimSpace path) \<and> c = Clean (TrimSpace path)"
proof -
  have "cleaned \<noteq> '''' \<and> cleaned \<noteq> ''.''" if "IsAbs cleaned" for cleaned
    using that by auto
  then show ?thesis by (auto simp: CanonicalizePath_def Let_def)
qed

lemma Clean_nonempty: "Clean s \<noteq> ''''"
  by (auto simp: Clean_def Let_def)

lemma CanonicalizePath_Inl:
  "CanonicalizePath path = Inl e \<Longrightarrow>
   (Clean (TrimSpace path) = ''.'' \<and> e = New ''namespace path is required'')
   \<or> (Clean (TrimSpace path) \<noteq> ''.'' \<and> \<not> IsAbs (TrimSpace path)
      \<and> e = New (''namespace path must be absolute: '' @ path))"
  by (auto simp: CanonicalizePath_def Let_def Clean_nonempty split: if_splits)

section \<open>Handles\<close>

record NSHandle =
  ns_handle :: nat
  ns_path :: string

record 'w netns_api =
  unix_Open :: "string \<Rightarrow> 'w \<Rightarrow> nat result \<times> 'w"
  netns_Get :: "'w \<Rightarrow> nat result \<times> 'w"
  netns_Set :: "nat \<Rightarrow> 'w \<Rightarrow> goerr option \<times> 'w"
  handle_Close :: "nat \<Rightarrow> 'w \<Rightarrow> goerr option \<times> 'w"

definition Open :: "'w netns_api \<Rightarrow> string \<Rightarrow> 'w \<Rightarrow> NSHandle result \<times> 'w" where
  "Open api path w =
     (case unix_Open api path w of
        (Inl err, w') \<Rightarrow>
          (Inl (Wrapf (''failed to open namespace '' @ path @ '': '') err ''''), w')
      | (Inr fd, w') \<Rightarrow> (Inr \<lparr>ns_handle = fd, ns_path = path\<rparr>, w'))"

definition Close :: "'w netns_api \<Rightarrow> NSHandle \<Rightarrow> 'w \<Rightarrow> goerr option \<times> 'w" where
  "Close api h w = handle_Close api (ns_handle h) w"

definition Path :: "NSHandle \<Rightarrow> string" where
  "Path h = ns_path h"

section \<open>Running a function in a namespace\<close>

text \<open>The OS thread of the calling goroutine: how often it is locked, and the kernel.\<close>

record 'w os_thread =
  lock_depth :: nat
  kernel :: 'w

definition LockOSThread :: "'w os_thread \<Rightarrow> 'w os_thread" where
  "LockOSThread t = t\<lparr>lock_depth := lock_depth t + 1\<rparr>"

definition UnlockOSThread :: "'w os_thread \<Rightarrow> 'w os_thread" where
  "UnlockOSThread t = t\<lparr>lock_depth := lock_depth t - 1\<rparr>"

text \<open>The two deferred closures of \<^verbatim>\<open>Do\<close>, which run after it in reverse order.\<close>

definition close_saved :: "'w netns_api \<Rightarrow> nat \<Rightarrow> goerr option \<times> 'w \<Rightarrow> goerr option \<times> 'w" where
  "close_saved api currentNs rw =
     (case rw of (retErr, w) \<Rightarrow>
       (case handle_Close api currentNs w of
          (None, w') \<Rightarrow> (retErr, w')
        | (Some closeErr, w') \<Rightarrow>
            (errors_Join retErr (Some (Wrapf ''failed to close saved namespace handle: '' closeErr '''')), w')))"

definition restore_saved :: "'w netns_api \<Rightarrow> nat \<Rightarrow> goerr option \<times> 'w \<Rightarrow> goerr option \<times> 'w" where
  "restore_saved api currentNs rw =
     (case rw of (retErr, w) \<Rightarrow>
       (case netns_Set api currentNs w of
          (None, w') \<Rightarrow> (retErr, w')
        | (Some setErr, w') \<Rightarrow>
            (errors_Join retErr (Some (Wrapf ''failed to restore namespace: '' setErr '''')), w')))"

text \<open>
  \<open>vars\<close> are the variables the closure \<^verbatim>\<open>fn\<close> captures and assigns; they keep their
  initial value when \<^verbatim>\<open>fn\<close> does not run.
\<close>

definition Do_body ::
  "'w netns_api \<Rightarrow> NSHandle \<Rightarrow> 'a \<Rightarrow> ('w \<Rightarrow> goerr option \<times> 'a \<times> 'w) \<Rightarrow> 'w \<Rightarrow> goerr option \<times> 'a \<times> 'w" where
  "Do_body api h vars fn w =
     (case netns_Get api w of
        (Inl err, w1) \<Rightarrow> (Some (Wrapf ''failed to get current namespace: '' err ''''), vars, w1)
      | (Inr currentNs, w1) \<Rightarrow>
          (case netns_Set api (ns_handle h) w1 of
             (Some err, w2) \<Rightarrow>
               (case close_saved api currentNs (Some (Wrapf ''failed to set namespace: '' err ''''), w2) of
                  (r, w3) \<Rightarrow> (r, vars, w3))
           | (None, w2) \<Rightarrow>
               (case fn w2 of (retErr, vars', w3) \<Rightarrow>
                  (case close_saved api currentNs (restore_saved api currentNs (retErr, w3)) of
                     (r, w5) \<Rightarrow> (r, vars', w5)))))"

definition Do ::
  "'w netns_api \<Rightarrow> NSHandle \<Rightarrow> 'a \<Rightarrow> ('w \<Rightarrow> goerr option \<times> 'a \<times> 'w) \<Rightarrow> 'w os_thread
   \<Rightarrow> goerr option \<times> 'a \<times> 'w os_thread" where
  "Do api h vars fn t =
     (let t1 = LockOSThread t
      in case Do_body api h vars fn (kernel t1) of
           (r, vars', w) \<Rightarrow> (r, vars', UnlockOSThread (t1\<lparr>kernel := w\<rparr>)))"

section \<open>What the kernel documents\<close>

text \<open>
  \<open>cur w\<close> is the network namespace of the thread and \<open>refers w fd\<close> the namespace an open
  descriptor refers to. A failing \<^verbatim>\<open>setns\<close> changes nothing; a descriptor is released by
  \<^verbatim>\<open>close\<close> whatever it returns.
\<close>

definition netns_laws :: "'w netns_api \<Rightarrow> ('w \<Rightarrow> 'n) \<Rightarrow> ('w \<Rightarrow> nat \<rightharpoonup> 'n) \<Rightarrow> bool" where
  "netns_laws api cur refers \<longleftrightarrow>
     (\<forall>w fd w'. netns_Get api w = (Inr fd, w') \<longrightarrow>
        cur w' = cur w \<and> refers w fd = None \<and> refers w' = (refers w)(fd \<mapsto> cur w))
     \<and> (\<forall>w e w'. netns_Get api w = (Inl e, w') \<longrightarrow> cur w' = cur w \<and> refers w' = refers w)
     \<and> (\<forall>fd w w'. netns_Set api fd w = (None, w') \<longrightarrow>
          refers w fd = Some (cur w') \<and> refers w' = refers w)
     \<and> (\<forall>fd w e w'. netns_Set api fd w = (Some e, w') \<longrightarrow> cur w' = cur w \<and> refers w' = refers w)
     \<and> (\<forall>fd w r w'. handle_Close api fd w = (r, w') \<longrightarrow>
          cur w' = cur w \<and> refers w' = (refers w)(fd := None))"

lemma netns_lawsD:
  assumes "netns_laws api cur refers"
  shows "netns_Get api w = (Inr fd, w') \<Longrightarrow>
           cur w' = cur w \<and> refers w fd = None \<and> refers w' = (refers w)(fd \<mapsto> cur w)"
    and "netns_Get api w = (Inl e, w') \<Longrightarrow> cur w' = cur w \<and> refers w' = refers w"
    and "netns_Set api fd w = (None, w') \<Longrightarrow> refers w fd = Some (cur w') \<and> refers w' = refers w"
    and "netns_Set api fd w = (Some e, w') \<Longrightarrow> cur w' = cur w \<and> refers w' = refers w"
    and "handle_Close api fd w = (r, w') \<Longrightarrow> cur w' = cur w \<and> refers w' = (refers w)(fd := None)"
  using assms unfolding netns_laws_def by blast+

text \<open>A closure that leaves the descriptors that were open before it alone; it may open others.\<close>

definition keeps_handles :: "('w \<Rightarrow> nat \<rightharpoonup> 'n) \<Rightarrow> ('w \<Rightarrow> goerr option \<times> 'a \<times> 'w) \<Rightarrow> bool" where
  "keeps_handles refers fn \<longleftrightarrow>
     (\<forall>w r v w'. fn w = (r, v, w') \<longrightarrow> refers w \<subseteq>\<^sub>m refers w')"

fun mentions :: "string \<Rightarrow> goerr \<Rightarrow> bool" where
  "mentions s (Sentinel _) = False"
| "mentions s (New _) = False"
| "mentions s (Wrapf pre e _) = (pre = s \<or> mentions s e)"
| "mentions s (Joined es) = list_ex (mentions s) es"

lemma close_saved_laws:
  assumes "netns_laws api cur refers" and "close_saved api fd (r, w) = (r', w')"
  shows "cur w' = cur w" and "refers w' = (refers w)(fd := None)"
    and "\<And>e. r = Some e \<Longrightarrow> mentions s e \<Longrightarrow> \<exists>e'. r' = Some e' \<and> mentions s e'"
    and "r' = None \<Longrightarrow> r = None"
  using assms(2) netns_lawsD(5) [OF assms(1), of fd w]
  by (auto simp: close_saved_def errors_Join_def split: prod.splits option.splits)

lemma restore_saved_laws:
  assumes "netns_laws api cur refers" and "restore_saved api fd (r, w) = (r', w')"
    and "refers w fd = Some n"
  shows "cur w' = n \<or> (\<exists>e. r' = Some e \<and> mentions ''failed to restore namespace: '' e)"
    and "refers w' = refers w" and "r' = None \<Longrightarrow> r = None"
  using assms netns_lawsD(3,4) [OF assms(1), of fd w]
  by (auto simp: restore_saved_def errors_Join_def split: prod.splits option.splits)

lemma Do_body_laws:
  assumes laws: "netns_laws api cur refers" and fn: "keeps_handles refers fn"
    and run: "Do_body api h vars fn w = (r, v, w')"
  shows "cur w' = cur w \<or> (\<exists>e. r = Some e \<and> mentions ''failed to restore namespace: '' e)"
    and "refers w \<subseteq>\<^sub>m refers w'"
proof -
  have both: "(cur w' = cur w \<or> (\<exists>e. r = Some e \<and> mentions ''failed to restore namespace: '' e))
    \<and> refers w \<subseteq>\<^sub>m refers w'"
  proof (cases "netns_Get api w")
    case (Pair g w1)
    show ?thesis
    proof (cases g)
      case (Inl e)
      with Pair run netns_lawsD(2) [OF laws, of w e w1] show ?thesis
        by (auto simp: Do_body_def)
    next
      case (Inr fd)
      with Pair netns_lawsD(1) [OF laws, of w fd w1]
      have w1: "cur w1 = cur w" "refers w fd = None" "refers w1 = (refers w)(fd \<mapsto> cur w)" by auto
      have undo: "(refers w1)(fd := None) = refers w" using w1 by auto
      have undo': "refers w \<subseteq>\<^sub>m (refers w3)(fd := None)" if "refers w1 \<subseteq>\<^sub>m refers w3" for w3
        using that w1(2) undo unfolding map_le_def by (metis domIff fun_upd_other)
      obtain s w2 where s: "netns_Set api (ns_handle h) w1 = (s, w2)" by fastforce
      show ?thesis
      proof (cases s)
        case (Some e)
        let ?e = "Some (Wrapf ''failed to set namespace: '' e '''')"
        from run Pair Inr s Some have "close_saved api fd (?e, w2) = (r, w')"
          by (auto simp: Do_body_def split: prod.splits)
        with close_saved_laws(1,2) [OF laws this] netns_lawsD(4) [OF laws, of "ns_handle h" w1 e w2]
        show ?thesis using s Some w1 undo by auto
      next
        case None
        obtain rf vf w3 where f: "fn w2 = (rf, vf, w3)" by (metis prod_cases3)
        obtain r4 w4 where r4: "restore_saved api fd (rf, w3) = (r4, w4)" by fastforce
        from run Pair Inr s None f r4 have cl: "close_saved api fd (r4, w4) = (r, w')"
          by (auto simp: Do_body_def split: prod.splits)
        have "refers w2 \<subseteq>\<^sub>m refers w3" using fn f unfolding keeps_handles_def by blast
        then have refs3: "refers w1 \<subseteq>\<^sub>m refers w3"
          using netns_lawsD(3) [OF laws, of "ns_handle h" w1 w2] s None by simp
        have "fd \<in> dom (refers w1)" "refers w1 fd = Some (cur w)" using w1(3) by simp_all
        with refs3 have "refers w3 fd = Some (cur w)" unfolding map_le_def by metis
        with restore_saved_laws [OF laws r4]
        have "cur w4 = cur w \<or> (\<exists>e. r4 = Some e \<and> mentions ''failed to restore namespace: '' e)"
          and "refers w4 = refers w3" by auto
        with close_saved_laws(1,2) [OF laws cl] close_saved_laws(3) [OF laws cl] undo' [OF refs3]
        show ?thesis by auto
      qed
    qed
  qed
  then show "cur w' = cur w \<or> (\<exists>e. r = Some e \<and> mentions ''failed to restore namespace: '' e)"
    and "refers w \<subseteq>\<^sub>m refers w'" by blast+
qed

text \<open>The closure runs in the namespace of the handle and nowhere else.\<close>

lemma Do_body_cong:
  assumes laws: "netns_laws api cur refers"
    and eq: "\<And>w. refers w (ns_handle h) = Some (cur w) \<Longrightarrow> fn w = gn w"
  shows "Do_body api h vars fn w = Do_body api h vars gn w"
proof -
  have "fn w2 = gn w2" if "netns_Set api (ns_handle h) w1 = (None, w2)" for w1 w2
    using netns_lawsD(3) [OF laws that] by (intro eq) simp
  then show ?thesis
    by (auto simp: Do_body_def split: prod.splits sum.splits option.splits)
qed

lemma lock_depth_Do: "Do api h vars fn t = (r, v, t') \<Longrightarrow> lock_depth t' = lock_depth t"
  by (auto simp: Do_def Let_def LockOSThread_def UnlockOSThread_def split: prod.splits)

lemma Do_kernel:
  "Do api h vars fn t = (r, v, t') \<Longrightarrow> Do_body api h vars fn (kernel t) = (r, v, kernel t')"
  by (auto simp: Do_def Let_def LockOSThread_def UnlockOSThread_def split: prod.splits)

end
