(* ===== verification/Config.thy ===== *)
theory Config
  imports Netns
begin

text \<open>
  \<^verbatim>\<open>internal/config/config.go\<close>: the relay configuration built from the command line. What
  lies outside the process is a record of parameters: the flag package's reading of the
  arguments (the sequence of flag assignments it makes, or its error), \<^verbatim>\<open>os.Stat\<close>, and
  \<^verbatim>\<open>net.ResolveUDPAddr("udp4", _)\<close>. The lemmas give the meaning of the octal mode parser
  and what every accepted configuration satisfies.
\<close>

type_synonym file_mode = "32 word"

record config =
  InitialNamespaces :: "string list"
  Groups :: "udp_addr list"
  Verbose :: bool
  ControlSocketPath :: string
  ControlTimeout :: duration
  ControlSocketMode :: file_mode
  ControlSocketGroup :: string

section \<open>Flags\<close>

text \<open>One assignment the flag package makes while it reads the arguments.\<close>

datatype flag_assign =
    FVerbose bool
  | FControlSocket string
  | FControlTimeout duration
  | FControlSocketMode string
  | FControlSocketGroup string
  | FGroup string
  | FNs string

text \<open>The variables the flags are bound to, with their defaults.\<close>

record flag_vars =
  f_groups :: "string list"
  f_namespaces :: "string list"
  f_verbose :: bool
  f_controlSocket :: string
  f_controlTimeout :: duration
  f_controlSocketMode :: string
  f_controlSocketGroup :: string

definition flag_defaults :: flag_vars where
  "flag_defaults =
     \<lparr>f_groups = [], f_namespaces = [], f_verbose = False, f_controlSocket = '''',
      f_controlTimeout = 3 * second, f_controlSocketMode = ''0600'', f_controlSocketGroup = ''''\<rparr>"

definition groupsFlag_Set :: "string list \<Rightarrow> string \<Rightarrow> string list" where
  "groupsFlag_Set g value = g @ [value]"

definition groupsFlag_String :: "string list \<Rightarrow> string" where
  "groupsFlag_String g = sep_concat '','' g"

definition namespacesFlag_Set :: "string list \<Rightarrow> string \<Rightarrow> string list" where
  "namespacesFlag_Set n value = n @ [value]"

definition namespacesFlag_String :: "string list \<Rightarrow> string" where
  "namespacesFlag_String n = sep_concat '','' n"

fun apply_flag :: "flag_vars \<Rightarrow> flag_assign \<Rightarrow> flag_vars" where
  "apply_flag v (FVerbose b) = v\<lparr>f_verbose := b\<rparr>"
| "apply_flag v (FControlSocket s) = v\<lparr>f_controlSocket := s\<rparr>"
| "apply_flag v (FControlTimeout d) = v\<lparr>f_controlTimeout := d\<rparr>"
| "apply_flag v (FControlSocketMode s) = v\<lparr>f_controlSocketMode := s\<rparr>"
| "apply_flag v (FControlSocketGroup s) = v\<lparr>f_controlSocketGroup := s\<rparr>"
| "apply_flag v (FGroup s) = v\<lparr>f_groups := groupsFlag_Set (f_groups v) s\<rparr>"
| "apply_flag v (FNs s) = v\<lparr>f_namespaces := namespacesFlag_Set (f_namespaces v) s\<rparr>"

section \<open>Octal permission modes\<close>

definition is_octal :: "char \<Rightarrow> bool" where
  "is_octal c \<longleftrightarrow> 48 \<le> (of_char c :: nat) \<and> (of_char c :: nat) < 56"

definition octal_digit :: "char \<Rightarrow> nat" where
  "octal_digit c = of_char c - 48"

text \<open>
  \<^verbatim>\<open>strconv.ParseUint(value, 8, 9)\<close>: a syntax error on an empty string or a byte that is no
  octal digit, a range error as soon as the value passes \<open>2^9 - 1\<close>.
\<close>

fun ParseUint_8_9_loop :: "nat \<Rightarrow> string \<Rightarrow> nat option" where
  "ParseUint_8_9_loop n [] = Some n"
| "ParseUint_8_9_loop n (c # cs) =
     (if \<not> is_octal c then None
      else if 2 ^ 9 - 1 < n * 8 + octal_digit c then None
      else ParseUint_8_9_loop (n * 8 + octal_digit c) cs)"

definition ParseUint_8_9 :: "string \<Rightarrow> nat option" where
  "ParseUint_8_9 s = (if s = [] then None else ParseUint_8_9_loop 0 s)"

text \<open>Go's octal literal \<^verbatim>\<open>0o777\<close>.\<close>

abbreviation perm_bits :: "'a::numeral" where
  "perm_bits \<equiv> 0x1FF"

definition parseSocketMode :: "string \<Rightarrow> file_mode result" where
  "parseSocketMode value =
     (case ParseUint_8_9 value of
        None \<Rightarrow> Inl (New (''control-socket-mode must be a non-zero octal permission mode: '' @ value))
      | Some parsed \<Rightarrow>
          if parsed = 0 \<or> perm_bits < parsed
          then Inl (New (''control-socket-mode must be a non-zero octal permission mode: '' @ value))
          else Inr (word_of_nat parsed))"

text \<open>The value of a string of octal digits, without a bound.\<close>

definition octal_value :: "nat \<Rightarrow> string \<Rightarrow> nat" where
  "octal_value n s = foldl (\<lambda>a c. a * 8 + octal_digit c) n s"

lemma octal_value_simps [simp]:
  "octal_value n [] = n"
  "octal_value n (c # s) = octal_value (n * 8 + octal_digit c) s"
  by (simp_all add: octal_value_def)

lemma octal_value_ge: "n \<le> octal_value n s"
proof (induction s arbitrary: n)
  case (Cons c s)
  have "n \<le> n * 8 + octal_digit c" by simp
  also have "\<dots> \<le> octal_value (n * 8 + octal_digit c) s" by (rule Cons.IH)
  finally show ?case by simp
qed simp

lemma ParseUint_loop_eq:
  "ParseUint_8_9_loop n s =
     (if (\<forall>c \<in> set s. is_octal c) \<and> (s = [] \<or> octal_value n s < 512) then Some (octal_value n s) else None)"
proof (induction s arbitrary: n)
  case (Cons c s)
  show ?case
    using Cons.IH [of "n * 8 + octal_digit c"] octal_value_ge [of "n * 8 + octal_digit c" s]
    by (cases "s = []") auto
qed simp

lemma parseSocketMode_Inr_iff:
  "parseSocketMode v = Inr m \<longleftrightarrow>
     (\<forall>c \<in> set v. is_octal c) \<and> 0 < octal_value 0 v \<and> octal_value 0 v < 512
     \<and> m = word_of_nat (octal_value 0 v)"
  by (cases v) (auto simp: parseSocketMode_def ParseUint_8_9_def ParseUint_loop_eq simp del: octal_value_simps(2))

section \<open>Namespace paths and groups\<close>

record config_env =
  flags_Parse :: "string list \<Rightarrow> flag_assign list result"
  os_Stat :: "string \<Rightarrow> goerr option"
  ResolveUDPAddr :: "string \<Rightarrow> udp_addr result"

definition canonicalizeStartupNamespacePath :: "config_env \<Rightarrow> string \<Rightarrow> string result" where
  "canonicalizeStartupNamespacePath env path =
     (case CanonicalizePath path of
        Inl err \<Rightarrow> Inl err
      | Inr cleaned \<Rightarrow>
          (case os_Stat env cleaned of
             Some err \<Rightarrow> Inl (Wrapf (''namespace path '' @ cleaned @ '' does not exist: '') err '''')
           | None \<Rightarrow> Inr cleaned))"

definition parseMulticastGroup :: "config_env \<Rightarrow> string \<Rightarrow> udp_addr result" where
  "parseMulticastGroup env grp =
     (case ResolveUDPAddr env grp of
        Inl err \<Rightarrow> Inl err
      | Inr addr \<Rightarrow>
          if \<not> IsMulticast (addr_IP addr)
          then Inl (New (ip_String (addr_IP addr) @ '' is not a multicast address''))
          else Inr addr)"

fun canonicalize_namespaces :: "config_env \<Rightarrow> string list \<Rightarrow> string list result" where
  "canonicalize_namespaces env [] = Inr []"
| "canonicalize_namespaces env (p # ps) =
     (case canonicalizeStartupNamespacePath env p of
        Inl err \<Rightarrow> Inl err
      | Inr c \<Rightarrow> map_sum id ((#) c) (canonicalize_namespaces env ps))"

fun parse_groups :: "config_env \<Rightarrow> string list \<Rightarrow> udp_addr list result" where
  "parse_groups env [] = Inr []"
| "parse_groups env (g # gs) =
     (case parseMulticastGroup env g of
        Inl err \<Rightarrow> Inl (Wrapf (''invalid multicast group '' @ g @ '': '') err '''')
      | Inr a \<Rightarrow> map_sum id ((#) a) (parse_groups env gs))"

definition default_groups :: "string list" where
  "default_groups = [''224.0.0.251:5353'', ''239.255.255.250:1900'']"

section \<open>Parse\<close>

definition config_of_flags :: "config_env \<Rightarrow> flag_vars \<Rightarrow> config result" where
  "config_of_flags env v =
     (case canonicalize_namespaces env (f_namespaces v) of
        Inl err \<Rightarrow> Inl err
      | Inr canonicalNamespaces \<Rightarrow>
     if f_controlSocket v \<noteq> '''' \<and> \<not> IsAbs (f_controlSocket v)
     then Inl (New (''control-socket path must be absolute: '' @ f_controlSocket v))
     else if f_controlTimeout v \<le> 0
     then Inl (New ''control-timeout must be positive'')
     else (case parseSocketMode (f_controlSocketMode v) of
        Inl err \<Rightarrow> Inl err
      | Inr parsedSocketMode \<Rightarrow>
     let groups = (if f_groups v = [] then default_groups else f_groups v)
     in (case parse_groups env groups of
        Inl err \<Rightarrow> Inl err
      | Inr groupAddrs \<Rightarrow>
          Inr \<lparr>InitialNamespaces = canonicalNamespaces, Groups = groupAddrs,
               Verbose = f_verbose v, ControlSocketPath = f_controlSocket v,
               ControlTimeout = f_controlTimeout v, ControlSocketMode = parsedSocketMode,
               ControlSocketGroup = TrimSpace (f_controlSocketGroup v)\<rparr>)))"

definition Parse :: "config_env \<Rightarrow> string list \<Rightarrow> config result" where
  "Parse env args =
     (case flags_Parse env args of
        Inl err \<Rightarrow> Inl err
      | Inr assigns \<Rightarrow> config_of_flags env (foldl apply_flag flag_defaults assigns))"

section \<open>What an accepted configuration satisfies\<close>

lemma map_sum_Inr_iff: "map_sum f g x = Inr y \<longleftrightarrow> (\<exists>z. x = Inr z \<and> y = g z)"
  by (cases x) auto

lemma startup_path_Inr_iff:
  "canonicalizeStartupNamespacePath env p = Inr c \<longleftrightarrow>
     IsAbs (TrimSpace p) \<and> c = Clean (TrimSpace p) \<and> os_Stat env c = None"
proof (cases "CanonicalizePath p")
  case (Inl e)
  then have "\<not> IsAbs (TrimSpace p)" using CanonicalizePath_Inr_iff [of p] by auto
  with Inl show ?thesis by (simp add: canonicalizeStartupNamespacePath_def)
next
  case (Inr d)
  then have "IsAbs (TrimSpace p) \<and> d = Clean (TrimSpace p)" by (rule CanonicalizePath_Inr_iff [THEN iffD1])
  with Inr show ?thesis
    by (cases "os_Stat env d") (auto simp: canonicalizeStartupNamespacePath_def)
qed

lemma canonicalize_namespaces_Cons_iff:
  "canonicalize_namespaces env (p # ps) = Inr cs \<longleftrightarrow>
     (\<exists>c cs'. canonicalizeStartupNamespacePath env p = Inr c
        \<and> canonicalize_namespaces env ps = Inr cs' \<and> cs = c # cs')"
  by (auto simp: map_sum_Inr_iff split: sum.splits)

lemma canonicalize_namespaces_Inr:
  "canonicalize_namespaces env ps = Inr cs \<Longrightarrow>
   cs = map (\<lambda>p. Clean (TrimSpace p)) ps
   \<and> (\<forall>c \<in> set cs. IsAbs c \<and> Clean c = c \<and> os_Stat env c = None)"
proof (induction ps arbitrary: cs)
  case (Cons p ps)
  then obtain c cs' where "canonicalizeStartupNamespacePath env p = Inr c"
    "canonicalize_namespaces env ps = Inr cs'" "cs = c # cs'"
    unfolding canonicalize_namespaces_Cons_iff by blast
  moreover from this have "IsAbs c \<and> Clean c = c \<and> os_Stat env c = None \<and> c = Clean (TrimSpace p)"
    unfolding startup_path_Inr_iff using IsAbs_Clean Clean_Clean by metis
  moreover note Cons.IH [of cs']
  ultimately show ?case by (metis list.simps(9) set_ConsD)
qed simp

lemma parse_groups_Inr:
  "parse_groups env gs = Inr as \<Longrightarrow>
   map (ResolveUDPAddr env) gs = map Inr as \<and> (\<forall>a \<in> set as. IsMulticast (addr_IP a))"
  by (induction gs arbitrary: as)
    (auto simp: parseMulticastGroup_def map_sum_Inr_iff split: sum.splits if_splits)

lemma config_of_flags_Inr:
  assumes "config_of_flags env v = Inr c"
  shows "canonicalize_namespaces env (f_namespaces v) = Inr (InitialNamespaces c)"
    and "ControlSocketPath c = '''' \<or> IsAbs (ControlSocketPath c)"
    and "0 < ControlTimeout c"
    and "parseSocketMode (f_controlSocketMode v) = Inr (ControlSocketMode c)"
    and "parse_groups env (if f_groups v = [] then default_groups else f_groups v) = Inr (Groups c)"
    and "ControlSocketGroup c = TrimSpace (f_controlSocketGroup v)"
  using assms by (auto simp: config_of_flags_def Let_def split: sum.splits if_splits)

lemma Groups_nonempty:
  assumes "config_of_flags env v = Inr c"
  shows "Groups c \<noteq> []"
  using parse_groups_Inr [OF config_of_flags_Inr(5) [OF assms]]
  by (auto simp: default_groups_def split: if_splits)

lemma mode_bits: "n < 512 \<Longrightarrow> (word_of_nat n :: file_mode) AND perm_bits = word_of_nat n"
proof -
  assume n: "n < 512"
  have "unat (take_bit 9 (word_of_nat n :: file_mode)) = unat (word_of_nat n :: file_mode)"
    using n by (simp add: unsigned_take_bit_eq unsigned_of_nat take_bit_nat_eq_self)
  then have "take_bit 9 (word_of_nat n :: file_mode) = word_of_nat n"
    by (rule unsigned_word_eqI)
  then show ?thesis by (simp add: take_bit_eq_mask mask_numeral)
qed

lemma mode_nonzero: "0 < n \<Longrightarrow> n < 512 \<Longrightarrow> (word_of_nat n :: file_mode) \<noteq> 0"
  by (auto simp: word_of_nat_eq_0_iff dest: dvd_imp_le)

text \<open>The parts of an accepted configuration that several properties share.\<close>

lemma Parse_flags:
  assumes "Parse env args = Inr c"
  obtains v where "config_of_flags env v = Inr c"
  using assms by (auto simp: Parse_def split: sum.splits)

lemma Parse_mode:
  assumes "Parse env args = Inr c"
  shows "ControlSocketMode c \<noteq> 0 \<and> ControlSocketMode c AND perm_bits = ControlSocketMode c"
proof -
  obtain v where v: "config_of_flags env v = Inr c" by (rule Parse_flags [OF assms])
  show ?thesis
    using config_of_flags_Inr(4) [OF v, unfolded parseSocketMode_Inr_iff] mode_bits mode_nonzero by metis
qed

lemma Parse_group:
  assumes "Parse env args = Inr c" and "g \<in> set (Groups c)"
  shows "IsMulticast (addr_IP g)" and "\<exists>s. ResolveUDPAddr env s = Inr g"
proof -
  obtain v where v: "config_of_flags env v = Inr c" by (rule Parse_flags [OF assms(1)])
  note gs = parse_groups_Inr [OF config_of_flags_Inr(5) [OF v]]
  show "IsMulticast (addr_IP g)" using gs assms(2) by blast
  have "(Inr g :: udp_addr result) \<in> set (map Inr (Groups c))" using assms(2) by simp
  also have "\<dots> = set (map (ResolveUDPAddr env) (if f_groups v = [] then default_groups else f_groups v))"
    using gs by (rule arg_cong [OF conjunct1, symmetric])
  finally show "\<exists>s. ResolveUDPAddr env s = Inr g" by force
qed

end
