(* ===== verification/MD5.thy ===== *)
theory MD5
  imports GoNet
begin

text \<open>
  \<^verbatim>\<open>crypto/md5\<close>'s \<^verbatim>\<open>Sum\<close>, which both loop barriers use to recognize a payload: the
  algorithm of RFC 1321 on 32-bit words. The lemmas give the length of a digest and two
  of the RFC's test vectors.
\<close>

type_synonym digest = "byte list"

definition md5_K :: "32 word list" where
  "md5_K =
     [0xd76aa478, 0xe8c7b756, 0x242070db, 0xc1bdceee, 0xf57c0faf, 0x4787c62a,
      0xa8304613, 0xfd469501, 0x698098d8, 0x8b44f7af, 0xffff5bb1, 0x895cd7be,
      0x6b901122, 0xfd987193, 0xa679438e, 0x49b40821, 0xf61e2562, 0xc040b340,
      0x265e5a51, 0xe9b6c7aa, 0xd62f105d, 0x02441453, 0xd8a1e681, 0xe7d3fbc8,
      0x21e1cde6, 0xc33707d6, 0xf4d50d87, 0x455a14ed, 0xa9e3e905, 0xfcefa3f8,
      0x676f02d9, 0x8d2a4c8a, 0xfffa3942, 0x8771f681, 0x6d9d6122, 0xfde5380c,
      0xa4beea44, 0x4bdecfa9, 0xf6bb4b60, 0xbebfbc70, 0x289b7ec6, 0xeaa127fa,
      0xd4ef3085, 0x04881d05, 0xd9d4d039, 0xe6db99e5, 0x1fa27cf8, 0xc4ac5665,
      0xf4292244, 0x432aff97, 0xab9423a7, 0xfc93a039, 0x655b59c3, 0x8f0ccc92,
      0xffeff47d, 0x85845dd1, 0x6fa87e4f, 0xfe2ce6e0, 0xa3014314, 0x4e0811a1,
      0xf7537e82, 0xbd3af235, 0x2ad7d2bb, 0xeb86d391]"

definition md5_S :: "nat list" where
  "md5_S =
     [7, 12, 17, 22, 7, 12, 17, 22, 7, 12, 17, 22, 7, 12, 17, 22,
      5, 9, 14, 20, 5, 9, 14, 20, 5, 9, 14, 20, 5, 9, 14, 20,
      4, 11, 16, 23, 4, 11, 16, 23, 4, 11, 16, 23, 4, 11, 16, 23,
      6, 10, 15, 21, 6, 10, 15, 21, 6, 10, 15, 21, 6, 10, 15, 21]"

definition rotate_left :: "nat \<Rightarrow> 32 word \<Rightarrow> 32 word" where
  "rotate_left n w = push_bit n w OR drop_bit (32 - n) w"

type_synonym md5_state = "32 word \<times> 32 word \<times> 32 word \<times> 32 word"

definition md5_round :: "32 word list \<Rightarrow> md5_state \<Rightarrow> nat \<Rightarrow> md5_state" where
  "md5_round m st i =
     (case st of (a, b, c, d) \<Rightarrow>
       let (f, g) =
         (if i < 16 then ((b AND c) OR (NOT b AND d), i)
          else if i < 32 then ((d AND b) OR (NOT d AND c), (5 * i + 1) mod 16)
          else if i < 48 then (b XOR c XOR d, (3 * i + 5) mod 16)
          else (c XOR (b OR NOT d), (7 * i) mod 16))
       in (d, b + rotate_left (md5_S ! i) (f + a + md5_K ! i + m ! g), b, c))"

fun le_words :: "byte list \<Rightarrow> 32 word list" where
  "le_words (b0 # b1 # b2 # b3 # r) =
     (ucast b0 OR push_bit 8 (ucast b1) OR push_bit 16 (ucast b2) OR push_bit 24 (ucast b3)) # le_words r"
| "le_words _ = []"

definition md5_block :: "md5_state \<Rightarrow> byte list \<Rightarrow> md5_state" where
  "md5_block st blk =
     (case (st, foldl (md5_round (le_words blk)) st [0..<64]) of
        ((a, b, c, d), (a', b', c', d')) \<Rightarrow> (a + a', b + b', c + c', d + d'))"

definition le_bytes :: "nat \<Rightarrow> 'a::len word \<Rightarrow> byte list" where
  "le_bytes n w = map (\<lambda>i. ucast (drop_bit (8 * i) w)) [0..<n]"

definition md5_pad :: "byte list \<Rightarrow> byte list" where
  "md5_pad bs =
     bs @ [0x80] @ replicate ((119 - length bs mod 64) mod 64) 0
        @ le_bytes 8 (word_of_nat (8 * length bs) :: 64 word)"

fun md5_blocks :: "byte list \<Rightarrow> byte list list" where
  "md5_blocks [] = []"
| "md5_blocks (b # bs) = take 64 (b # bs) # md5_blocks (drop 64 (b # bs))"

definition md5_init :: md5_state where
  "md5_init = (0x67452301, 0xefcdab89, 0x98badcfe, 0x10325476)"

definition md5_Sum :: "byte list \<Rightarrow> digest" where
  "md5_Sum bs =
     (case foldl md5_block md5_init (md5_blocks (md5_pad bs)) of
        (a, b, c, d) \<Rightarrow> le_bytes 4 a @ le_bytes 4 b @ le_bytes 4 c @ le_bytes 4 d)"

lemma length_le_bytes [simp]: "length (le_bytes n w) = n"
  by (simp add: le_bytes_def)

lemma length_md5_Sum [simp]: "length (md5_Sum bs) = 16"
  by (simp add: md5_Sum_def split: prod.split)

text \<open>Every block the compression function reads has 64 bytes.\<close>

lemma pad_total:
  fixes q r :: nat
  assumes "r < 64"
  shows "\<exists>k. 64 * q + r + 9 + (119 - r) mod 64 = 64 * k"
proof (cases "r \<le> 55")
  case True
  then have "119 - r = (55 - r) + 64" by simp
  then have "(119 - r) mod 64 = (55 - r) mod 64" by (metis mod_add_self2)
  also have "\<dots> = 55 - r" using True by (intro mod_less) simp
  finally show ?thesis using True by (intro exI [of _ "q + 1"]) simp
next
  case False
  then have "(119 - r) mod 64 = 119 - r" by (intro mod_less) simp
  then show ?thesis using assms by (intro exI [of _ "q + 2"]) simp
qed

lemma length_md5_pad: "64 dvd length (md5_pad bs)"
proof -
  have "length (md5_pad bs) = length bs + 9 + (119 - length bs mod 64) mod 64"
    by (simp add: md5_pad_def)
  also have "\<dots> = 64 * (length bs div 64) + length bs mod 64 + 9 + (119 - length bs mod 64) mod 64"
    by (simp only: mult_div_mod_eq)
  finally show ?thesis
    using pad_total [of "length bs mod 64" "length bs div 64"] by (metis dvd_triv_left mod_less_divisor zero_less_numeral)
qed

lemma md5_blocks_length:
  "64 dvd length bs \<Longrightarrow> b \<in> set (md5_blocks bs) \<Longrightarrow> length b = 64"
proof (induction bs rule: md5_blocks.induct)
  case (2 c bs)
  then have "64 \<le> length (c # bs)" by (intro dvd_imp_le) auto
  moreover have "64 dvd length (c # bs) - 64"
    using "2.prems"(1) by (intro dvd_diff_nat) auto
  ultimately show ?case using 2 by auto
qed simp

lemma md5_test_empty:
  "md5_Sum [] = [0xd4, 0x1d, 0x8c, 0xd9, 0x8f, 0x00, 0xb2, 0x04,
                 0xe9, 0x80, 0x09, 0x98, 0xec, 0xf8, 0x42, 0x7e]"
  by code_simp

lemma md5_test_abc:
  "md5_Sum [0x61, 0x62, 0x63] = [0x90, 0x01, 0x50, 0x98, 0x3c, 0xd2, 0x4f, 0xb0,
                                 0xd6, 0x96, 0x3f, 0x7d, 0x28, 0xe1, 0x7f, 0x72]"
  by code_simp

end
