(* ===== verification/Udp.thy ===== *)
theory Udp
  imports GoNet
begin

text \<open>
  The computation in \<^verbatim>\<open>internal/socket/multicast.go\<close> that forges a UDP datagram: the
  checksum over the pseudo header and the segment (32-bit sum, end-around carry, 16-bit
  complement) and the layout of the header before the data. The lemmas relate the machine
  arithmetic to the unbounded sum of 16-bit words, of which \<open>udp_verifies\<close>, the
  receiver's test of RFC 768, is the specification.
\<close>

section \<open>udpChecksum\<close>

text \<open>\<^verbatim>\<open>sum += uint32(binary.BigEndian.Uint16(p[i:i+2]))\<close> for every whole pair of bytes.\<close>

fun sum_pairs :: "32 word \<Rightarrow> byte list \<Rightarrow> 32 word" where
  "sum_pairs acc (a # b # r) = sum_pairs (acc + ucast (Uint16 [a, b])) r"
| "sum_pairs acc _ = acc"

text \<open>\<^verbatim>\<open>for sum > 0xffff { sum = (sum & 0xffff) + (sum >> 16) }\<close>\<close>

lemma fold_carry_step:
  fixes s :: "32 word"
  shows "unat ((s AND 0xffff) + drop_bit 16 s) = unat s mod 65536 + unat s div 65536"
proof -
  have lo: "unat (s AND 0xffff) = unat s mod 65536"
  proof -
    have "s AND 0xffff = take_bit 16 s" by (simp add: take_bit_eq_mask mask_numeral)
    then have "unat (s AND 0xffff) = take_bit 16 (unat s)" by (simp only: unsigned_take_bit_eq)
    then show ?thesis by (simp add: take_bit_eq_mod)
  qed
  have hi: "unat (drop_bit 16 s) = unat s div 65536"
    unfolding unat_drop_bit_eq by (simp add: drop_bit_eq_div)
  have "unat s < 65536 * 65536" using unsigned_less [of s] by simp
  then have "unat s div 65536 < 65536" by (simp add: less_mult_imp_div_less)
  then have "unat s mod 65536 + unat s div 65536 < 2 ^ 32"
    using mod_less_divisor [of 65536 "unat s"] by simp
  then show ?thesis using lo hi by (simp add: unat_word_ariths)
qed

function fold_carry :: "32 word \<Rightarrow> 32 word" where
  "fold_carry acc =
     (if 0xffff < acc then fold_carry ((acc AND 0xffff) + drop_bit 16 acc) else acc)"
  by pat_completeness auto
termination
proof (relation "measure unat")
  fix s :: "32 word"
  assume "0xffff < s"
  then have "65536 \<le> unat s" by (simp add: word_less_nat_alt)
  then have "1 \<le> unat s div 65536" by (simp add: div_greater_zero_iff Suc_le_eq)
  then have "unat s mod 65536 + unat s div 65536 < unat s mod 65536 + 65536 * (unat s div 65536)"
    by linarith
  also have "\<dots> = unat s" by (rule mod_mult_div_eq)
  finally show "((s AND 0xffff) + drop_bit 16 s, s) \<in> measure unat"
    by (simp only: in_measure fold_carry_step)
qed simp

declare fold_carry.simps [simp del]

text \<open>
  The pseudo header, the length and the payload are summed; a nil result of \<^verbatim>\<open>To4\<close> makes
  the slice expressions panic, which is \<open>None\<close>.
\<close>

definition checksum_total :: "ip \<Rightarrow> ip \<Rightarrow> byte list \<Rightarrow> 32 word" where
  "checksum_total source destination payload =
     (let sum = 0 + ucast (Uint16 (take 2 source)) + ucast (Uint16 (take 2 destination))
              + ucast (Uint16 (take 2 (drop 2 source))) + ucast (Uint16 (take 2 (drop 2 destination)));
          sum = sum + 17;
          sum = sum + word_of_nat (length payload);
          sum = sum_pairs sum payload
      in if length payload mod 2 \<noteq> 0 then sum + push_bit 8 (ucast (last payload)) else sum)"

definition udpChecksum :: "ip \<Rightarrow> ip \<Rightarrow> byte list \<Rightarrow> 16 word option" where
  "udpChecksum source destination payload =
     (case (To4 source, To4 destination) of
        (Some s, Some d) \<Rightarrow>
          (let checksum = NOT (ucast (fold_carry (checksum_total s d payload)) :: 16 word)
           in Some (if checksum = 0 then 0xffff else checksum))
      | _ \<Rightarrow> None)"

section \<open>The unbounded sum\<close>

fun word_sum :: "byte list \<Rightarrow> nat" where
  "word_sum (a # b # r) = 256 * unat a + unat b + word_sum r"
| "word_sum [a] = 256 * unat a"
| "word_sum [] = 0"

definition pseudo_sum :: "ip \<Rightarrow> ip \<Rightarrow> byte list \<Rightarrow> nat" where
  "pseudo_sum s d payload = word_sum s + word_sum d + 17 + length payload + word_sum payload"

text \<open>
  The receiver's test: with the checksum field in place, the one's complement sum of the
  pseudo header and the segment is all ones, that is, the sum is a multiple of \<open>65535\<close>
  (and not zero).
\<close>

definition udp_verifies :: "ip \<Rightarrow> ip \<Rightarrow> byte list \<Rightarrow> bool" where
  "udp_verifies s d segment \<longleftrightarrow> 65535 dvd pseudo_sum s d segment \<and> 0 < pseudo_sum s d segment"

lemma word_sum_append: "even (length xs) \<Longrightarrow> word_sum (xs @ ys) = word_sum xs + word_sum ys"
  by (induction xs rule: word_sum.induct) auto

lemma word_sum_le: "word_sum xs \<le> 65535 * ((length xs + 1) div 2)"
proof (induction xs rule: word_sum.induct)
  case (1 a b r)
  have "256 * unat a + unat b \<le> 65535" using unat_byte [of a] unat_byte [of b] by linarith
  with 1 show ?case by simp
next
  case (2 a)
  then show ?case using unat_byte [of a] by simp
qed simp

lemma unat_ucast_Uint16: "unat (ucast (Uint16 (a # b # r)) :: 32 word) = 256 * unat a + unat b"
proof -
  have "256 * unat a + unat b < 65536" using unat_byte [of a] unat_byte [of b] by linarith
  then show ?thesis by (simp add: unsigned_ucast_eq unat_Uint16 take_bit_nat_eq_self)
qed

lemma unat_add_bounded:
  "unat a + unat b < 2 ^ 32 \<Longrightarrow> unat ((a :: 32 word) + b) = unat a + unat b"
  by (simp add: unat_word_ariths)

text \<open>The part of a payload the loop over pairs reads, and the odd byte after it.\<close>

lemma sum_pairs_unat:
  "unat acc + word_sum payload < 2 ^ 32 \<Longrightarrow>
   unat (sum_pairs acc payload) + (if odd (length payload) then 256 * unat (last payload) else 0)
     = unat acc + word_sum payload"
proof (induction acc payload rule: sum_pairs.induct)
  case (1 acc a b r)
  have step: "unat (acc + ucast (Uint16 [a, b])) = unat acc + (256 * unat a + unat b)"
    using "1.prems" by (simp add: unat_add_bounded unat_ucast_Uint16)
  with "1.prems" have "unat (acc + ucast (Uint16 [a, b])) + word_sum r < 2 ^ 32" by simp
  from "1.IH" [OF this] step show ?case by (cases r) (auto split: if_splits)
qed auto

lemma unat_push_byte: "unat (push_bit 8 (ucast (b :: byte)) :: 32 word) = 256 * unat b"
proof -
  have "256 * unat b < 2 ^ 32" using unat_byte [of b] by simp
  then show ?thesis using unat_byte [of b]
    by (simp add: push_bit_eq_mult unat_word_ariths unsigned_ucast_eq take_bit_nat_eq_self)
qed

lemma length4E:
  assumes "length (x :: 'a list) = 4"
  obtains a b c d where "x = [a, b, c, d]"
  using assms by (auto simp: numeral_eq_Suc length_Suc_conv)

lemma length4_sum_bound: "length x = 4 \<Longrightarrow> word_sum x \<le> 131070"
  using word_sum_le [of x] by simp

text \<open>For every payload of an IPv4 datagram the 32-bit sum does not wrap.\<close>

lemma checksum_total_unat:
  assumes s: "length s = 4" and d: "length d = 4" and len: "length payload \<le> 65535"
  shows "unat (checksum_total s d payload) = pseudo_sum s d payload"
proof -
  obtain s0 s1 s2 s3 where s': "s = [s0, s1, s2, s3]" using s by (rule length4E)
  obtain d0 d1 d2 d3 where d': "d = [d0, d1, d2, d3]" using d by (rule length4E)
  have ws: "word_sum s \<le> 131070" "word_sum d \<le> 131070" using s d length4_sum_bound by blast+
  have wp: "word_sum payload \<le> 2147450880"
  proof -
    have "65535 * ((length payload + 1) div 2) \<le> 65535 * 32768"
      using len by (intro mult_le_mono2) simp
    then show ?thesis using word_sum_le [of payload] by simp
  qed
  let ?h = "0 + ucast (Uint16 (take 2 s)) + ucast (Uint16 (take 2 d))
              + ucast (Uint16 (take 2 (drop 2 s))) + ucast (Uint16 (take 2 (drop 2 d))) :: 32 word"
  let ?b = "?h + 17 + word_of_nat (length payload) :: 32 word"
  have h: "unat ?h = word_sum s + word_sum d"
    using ws unfolding s' d'
    by (simp add: unat_add_bounded unat_ucast_Uint16)
  have l: "unat (word_of_nat (length payload) :: 32 word) = length payload"
    using len by (simp add: unsigned_of_nat take_bit_nat_eq_self)
  have h17: "unat (?h + 17) = word_sum s + word_sum d + 17"
    using h ws by (subst unat_add_bounded) simp_all
  have b: "unat ?b = word_sum s + word_sum d + 17 + length payload"
    using h17 l ws len by (subst unat_add_bounded) simp_all
  have sp: "unat (sum_pairs ?b payload) + (if odd (length payload) then 256 * unat (last payload) else 0)
      = pseudo_sum s d payload"
    using sum_pairs_unat [of ?b payload] b ws wp len by (simp add: pseudo_sum_def)
  have bound: "pseudo_sum s d payload < 2 ^ 32"
    using ws wp len by (simp add: pseudo_sum_def)
  show ?thesis
  proof (cases "odd (length payload)")
    case True
    then have "checksum_total s d payload = sum_pairs ?b payload + push_bit 8 (ucast (last payload))"
      by (simp add: checksum_total_def Let_def odd_iff_mod_2_eq_one)
    then show ?thesis using sp bound True
      by (simp add: unat_add_bounded unat_push_byte)
  next
    case False
    then have "checksum_total s d payload = sum_pairs ?b payload"
      by (simp add: checksum_total_def Let_def even_iff_mod_2_eq_zero)
    then show ?thesis using sp False by simp
  qed
qed

section \<open>End-around carry\<close>

lemma fold_carry_le: "unat (fold_carry s) \<le> 65535"
proof (induction s rule: fold_carry.induct)
  case (1 s)
  then show ?case
    by (cases "0xffff < s") (simp_all add: fold_carry.simps [of s] word_less_nat_alt)
qed

lemma carry_congruent: "(n mod 65536 + n div 65536) mod 65535 = n mod (65535::nat)"
proof -
  have "n = 65536 * (n div 65536) + n mod 65536" by simp
  also have "\<dots> = 65535 * (n div 65536) + (n mod 65536 + n div 65536)" by simp
  finally have "n mod 65535 = (65535 * (n div 65536) + (n mod 65536 + n div 65536)) mod 65535"
    by (rule arg_cong)
  then show ?thesis by (simp only: mod_mult_self4)
qed

lemma fold_carry_congruent: "unat (fold_carry s) mod 65535 = unat s mod 65535"
proof (induction s rule: fold_carry.induct)
  case (1 s)
  show ?case
  proof (cases "0xffff < s")
    case True
    then have "unat (fold_carry s) mod 65535 = unat ((s AND 0xffff) + drop_bit 16 s) mod 65535"
      using "1.IH" by (simp only: fold_carry.simps [of s] if_True)
    then show ?thesis by (simp only: fold_carry_step carry_congruent)
  qed (simp add: fold_carry.simps [of s])
qed

lemma NOT_unat: "unat (NOT (w :: 16 word)) = 65535 - unat w"
proof -
  have "unat w < 2 ^ 16" using unsigned_less [of w] by simp
  then have "unat w \<le> 65535" by simp
  then have "w \<le> - 1" and m: "unat (- 1 :: 16 word) = 65535"
    by (simp_all add: unsigned_minus_1_eq_mask mask_numeral)
  then have "unat (- 1 - w) = unat (- 1 :: 16 word) - unat w" by (intro unat_sub)
  moreover have "NOT w = - 1 - w" by (simp add: not_eq_complement)
  ultimately show ?thesis using m by simp
qed

lemma udpChecksum_Some:
  assumes s: "To4 source = Some s" and d: "To4 destination = Some d" and len: "length payload \<le> 65535"
  obtains c where "udpChecksum source destination payload = Some c" and "0 < unat c"
    and "(pseudo_sum s d payload + unat c) mod 65535 = 0"
proof -
  let ?t = "checksum_total s d payload" let ?f = "fold_carry ?t"
  let ?c = "NOT (ucast ?f :: 16 word)"
  have t: "unat ?t = pseudo_sum s d payload"
    using To4_length s d len by (intro checksum_total_unat)
  have f: "unat (ucast ?f :: 16 word) = unat ?f"
    using fold_carry_le [of ?t] by (simp add: unsigned_ucast_eq take_bit_nat_eq_self)
  have c: "unat ?c = 65535 - unat ?f" by (simp add: NOT_unat f)
  have sum: "(pseudo_sum s d payload + (65535 - unat ?f)) mod 65535 = 0"
  proof -
    have "(pseudo_sum s d payload + (65535 - unat ?f)) mod 65535
        = (unat ?f + (65535 - unat ?f)) mod 65535"
      using fold_carry_congruent [of ?t] unfolding t by (intro mod_add_cong) simp_all
    also have "unat ?f + (65535 - unat ?f) = 65535" using fold_carry_le [of ?t] by simp
    finally show ?thesis by simp
  qed
  show thesis
  proof (cases "?c = 0")
    case True
    then have "pseudo_sum s d payload mod 65535 = 0" using sum c by simp
    then have "(pseudo_sum s d payload + unat (0xffff :: 16 word)) mod 65535 = 0" by simp
    then show thesis using True s d by (intro that [of "0xffff"]) (simp_all add: udpChecksum_def)
  next
    case False
    then have "0 < unat ?c" by (simp add: unat_gt_0)
    with False sum c s d show thesis by (intro that [of ?c]) (simp_all add: udpChecksum_def)
  qed
qed

section \<open>The datagram\<close>

definition put_at :: "nat \<Rightarrow> byte list \<Rightarrow> byte list \<Rightarrow> byte list" where
  "put_at i bs p = take i p @ bs @ drop (i + length bs) p"

definition udp_payload :: "udp_addr \<Rightarrow> udp_addr \<Rightarrow> byte list \<Rightarrow> byte list option" where
  "udp_payload source grp data =
     (let udpLength = 8 + length data;
          payload = replicate udpLength 0;
          payload = put_at 0 (PutUint16 (word_of_int (addr_Port source))) payload;
          payload = put_at 2 (PutUint16 (word_of_int (addr_Port grp))) payload;
          payload = put_at 4 (PutUint16 (word_of_nat udpLength)) payload;
          payload = put_at 8 data payload
      in case udpChecksum (addr_IP source) (addr_IP grp) payload of
           None \<Rightarrow> None
         | Some c \<Rightarrow> Some (put_at 6 (PutUint16 c) payload))"

definition udp_header :: "16 word \<Rightarrow> 16 word \<Rightarrow> 16 word \<Rightarrow> 16 word \<Rightarrow> byte list" where
  "udp_header sp dp len c = PutUint16 sp @ PutUint16 dp @ PutUint16 len @ PutUint16 c"

lemma udp_payload_eq:
  "udp_payload source grp data =
     (let hdr = udp_header (word_of_int (addr_Port source)) (word_of_int (addr_Port grp))
                  (word_of_nat (8 + length data))
      in map_option (\<lambda>c. hdr c @ data) (udpChecksum (addr_IP source) (addr_IP grp) (hdr 0 @ data)))"
  by (simp add: udp_payload_def udp_header_def Let_def put_at_def PutUint16_def numeral_eq_Suc
      split: option.split)

text \<open>What a receiver reads from a segment: ports, length, checksum, data.\<close>

definition parse_udp :: "byte list \<Rightarrow> 16 word \<times> 16 word \<times> 16 word \<times> 16 word \<times> byte list" where
  "parse_udp seg = (Uint16 seg, Uint16 (drop 2 seg), Uint16 (drop 4 seg), Uint16 (drop 6 seg), drop 8 seg)"

lemma parse_udp_header: "parse_udp (udp_header sp dp len c @ data) = (sp, dp, len, c, data)"
proof -
  have d: "drop 2 (PutUint16 w @ r) = r" for w r by (simp add: PutUint16_def)
  have "drop 4 xs = drop 2 (drop 2 xs)" "drop 6 xs = drop 2 (drop 2 (drop 2 xs))"
    "drop 8 xs = drop 2 (drop 2 (drop 2 (drop 2 xs)))" for xs :: "byte list" by simp_all
  then show ?thesis by (simp only: parse_udp_def udp_header_def append_assoc d Uint16_PutUint16)
qed

lemma word_sum_header:
  "word_sum (udp_header sp dp len c @ data) = word_sum (udp_header sp dp len 0 @ data) + unat c"
proof -
  have put: "word_sum (PutUint16 w) = unat w" for w :: "16 word"
    using unat_Uint16 [of "ucast (drop_bit 8 w)" "ucast w" "[]"] Uint16_PutUint16 [of w "[]"]
    by (simp add: PutUint16_def)
  show ?thesis by (simp add: udp_header_def word_sum_append put)
qed

lemma length_udp_header [simp]: "length (udp_header sp dp len c) = 8"
  by (simp add: udp_header_def)

text \<open>Every segment the program forges is accepted by the receiver's checksum test.\<close>

lemma udp_payload_verifies:
  assumes s: "To4 (addr_IP source) = Some s" and d: "To4 (addr_IP grp) = Some d"
    and len: "length data \<le> 65507"
  obtains seg c where "udp_payload source grp data = Some seg" and "udp_verifies s d seg"
    and "parse_udp seg = (word_of_int (addr_Port source), word_of_int (addr_Port grp),
                          word_of_nat (8 + length data), c, data)"
    and "c \<noteq> 0" and "length seg = 8 + length data"
proof -
  let ?hdr = "udp_header (word_of_int (addr_Port source)) (word_of_int (addr_Port grp)) (word_of_nat (8 + length data))"
  have "length (?hdr 0 @ data) \<le> 65535" using len by simp
  then obtain c where c: "udpChecksum (addr_IP source) (addr_IP grp) (?hdr 0 @ data) = Some c" "0 < unat c"
      "(pseudo_sum s d (?hdr 0 @ data) + unat c) mod 65535 = 0"
    using udpChecksum_Some [OF s d] by blast
  have "pseudo_sum s d (?hdr c @ data) = pseudo_sum s d (?hdr 0 @ data) + unat c"
    by (simp add: pseudo_sum_def word_sum_header [of _ _ _ c])
  with c have "udp_verifies s d (?hdr c @ data)"
    by (simp add: udp_verifies_def mod_eq_0_iff_dvd)
  moreover have "c \<noteq> 0" using c(2) by auto
  ultimately show thesis using c(1)
    by (intro that [of "?hdr c @ data" c]) (simp_all add: udp_payload_eq Let_def parse_udp_header)
qed

end
