(* ===== verification/Socket.thy ===== *)
theory Socket
  imports MD5 Udp Netns
begin

text \<open>
  \<^verbatim>\<open>internal/socket/multicast.go\<close>: a multicast socket of one group in one namespace. The
  \<^verbatim>\<open>net\<close> and \<^verbatim>\<open>x/net/ipv4\<close> calls on the sockets are the fields of the record \<open>sock_api\<close>,
  functions of the kernel state \<open>'w\<close>; descriptors are numbers, and an \<^verbatim>\<open>ipv4.PacketConn\<close> is
  the descriptor of the connection it wraps. Logging is left out.
  The lemmas cover the interfaces a socket joins and the descriptors its construction and
  its \<^verbatim>\<open>Close\<close> acquire and release. Reading and writing are in \<open>SocketIO\<close>.
\<close>

section \<open>Constants and the socket API\<close>

definition BufferSize :: int where
  "BufferSize = 64 * 1024"

definition WriteTimeout :: duration where
  "WriteTimeout = 100 * millisecond"

definition ReadTimeout :: duration where
  "ReadTimeout = 1 * second"

definition selfEchoWindow :: duration where
  "selfEchoWindow = 500 * millisecond"

record iface =
  if_Index :: int
  if_Name :: string
  if_Up :: bool
  if_Loopback :: bool
  if_Multicast :: bool

record ip_header =
  hdr_Version :: int
  hdr_Len :: int
  hdr_TotalLen :: int
  hdr_TTL :: int
  hdr_Protocol :: int
  hdr_Src :: ip
  hdr_Dst :: ip

record 'w sock_api =
  time_Now :: "'w \<Rightarrow> gotime \<times> 'w"
  net_Interfaces :: "'w \<Rightarrow> iface list result \<times> 'w"
  ListenMulticastUDP :: "iface \<Rightarrow> udp_addr \<Rightarrow> 'w \<Rightarrow> nat result \<times> 'w"
  JoinGroup :: "nat \<Rightarrow> iface \<Rightarrow> udp_addr \<Rightarrow> 'w \<Rightarrow> goerr option \<times> 'w"
  SetMulticastLoopback :: "nat \<Rightarrow> 'w \<Rightarrow> goerr option \<times> 'w"
  SetControlMessage :: "nat \<Rightarrow> 'w \<Rightarrow> goerr option \<times> 'w"
  ListenIP :: "'w \<Rightarrow> nat result \<times> 'w"
  NewRawConn :: "nat \<Rightarrow> 'w \<Rightarrow> goerr option \<times> 'w"
  SetMulticastInterface :: "nat \<Rightarrow> iface \<Rightarrow> 'w \<Rightarrow> goerr option \<times> 'w"
  SetReadBuffer :: "nat \<Rightarrow> int \<Rightarrow> 'w \<Rightarrow> goerr option \<times> 'w"
  SetWriteBuffer :: "nat \<Rightarrow> int \<Rightarrow> 'w \<Rightarrow> goerr option \<times> 'w"
  SetWriteDeadline :: "nat \<Rightarrow> gotime \<Rightarrow> 'w \<Rightarrow> goerr option \<times> 'w"
  SetMulticastTTL :: "nat \<Rightarrow> int \<Rightarrow> 'w \<Rightarrow> goerr option \<times> 'w"
  packetConn_WriteTo :: "nat \<Rightarrow> byte list \<Rightarrow> int \<Rightarrow> udp_addr \<Rightarrow> 'w \<Rightarrow> nat result \<times> 'w"
  rawConn_WriteTo :: "nat \<Rightarrow> ip_header \<Rightarrow> byte list \<Rightarrow> int \<Rightarrow> 'w \<Rightarrow> goerr option \<times> 'w"
  WriteToUDP :: "nat \<Rightarrow> byte list \<Rightarrow> udp_addr \<Rightarrow> 'w \<Rightarrow> nat result \<times> 'w"
  conn_Close :: "nat \<Rightarrow> 'w \<Rightarrow> goerr option \<times> 'w"

type_synonym recent_map = "digest \<rightharpoonup> gotime"

record MulticastSocket =
  sock_conn :: nat
  sock_rawConn :: "nat option"
  sock_group :: udp_addr
  interfaceIndex :: int
  interfaceIndices :: "int list"
  recentTx :: "recent_map option"

section \<open>Choosing interfaces\<close>

definition usable_interfaces :: "iface list \<Rightarrow> iface list" where
  "usable_interfaces ifaces =
     (let usable = filter (\<lambda>i. if_Up i \<and> \<not> if_Loopback i \<and> if_Multicast i) ifaces
      in if usable = []
         then (case find (\<lambda>i. if_Up i \<and> if_Loopback i) ifaces of None \<Rightarrow> [] | Some i \<Rightarrow> [i])
         else usable)"

lemma usable_interfaces_subset: "i \<in> set (usable_interfaces ifaces) \<Longrightarrow> i \<in> set ifaces \<and> if_Up i"
  by (auto simp: usable_interfaces_def Let_def find_Some_iff split: option.splits if_splits)

lemma usable_interfaces_all:
  "\<exists>i \<in> set ifaces. if_Up i \<and> \<not> if_Loopback i \<and> if_Multicast i \<Longrightarrow>
   set (usable_interfaces ifaces) = {i \<in> set ifaces. if_Up i \<and> \<not> if_Loopback i \<and> if_Multicast i}"
  by (auto simp: usable_interfaces_def Let_def filter_empty_conv)

lemma usable_interfaces_empty_iff:
  "usable_interfaces ifaces = [] \<longleftrightarrow>
   (\<forall>i \<in> set ifaces. if_Up i \<longrightarrow> \<not> if_Loopback i \<and> \<not> if_Multicast i)"
  by (auto simp: usable_interfaces_def Let_def filter_empty_conv find_None_iff find_Some_iff
      split: option.splits)

section \<open>Construction\<close>

text \<open>The variables of \<^verbatim>\<open>NewMulticastSocket\<close> that its closure assigns.\<close>

record sock_vars =
  v_conn :: "nat option"
  v_rawConn :: "nat option"
  v_interfaceIndex :: int
  v_interfaceIndices :: "int list"

definition vars_init :: sock_vars where
  "vars_init = \<lparr>v_conn = None, v_rawConn = None, v_interfaceIndex = 0, v_interfaceIndices = []\<rparr>"

definition enableMulticastLoopback :: "'w sock_api \<Rightarrow> nat \<Rightarrow> 'w \<Rightarrow> goerr option \<times> 'w" where
  "enableMulticastLoopback api conn w = SetMulticastLoopback api conn w"

text \<open>The loop that joins the group on the interfaces after the first.\<close>

fun join_rest :: "'w sock_api \<Rightarrow> nat \<Rightarrow> udp_addr \<Rightarrow> iface list \<Rightarrow> 'w \<Rightarrow> goerr option \<times> 'w" where
  "join_rest api conn grp [] w = (None, w)"
| "join_rest api conn grp (i # is) w =
     (case JoinGroup api conn i grp w of
        (Some err, w') \<Rightarrow>
          (Some (Wrapf (''failed to join multicast group '' @ udp_String grp @ '' on interface ''
                 @ if_Name i @ '': '') err ''''), snd (conn_Close api conn w'))
      | (None, w') \<Rightarrow> join_rest api conn grp is w')"

text \<open>
  The raw connection that preserves source addresses: any failure leaves it nil, with a
  warning, and closes what was opened.
\<close>

definition open_raw :: "'w sock_api \<Rightarrow> iface \<Rightarrow> 'w \<Rightarrow> nat option \<times> 'w" where
  "open_raw api primary w =
     (case ListenIP api w of
        (Inl _, w1) \<Rightarrow> (None, w1)
      | (Inr rawIPConn, w1) \<Rightarrow>
          (case NewRawConn api rawIPConn w1 of
             (Some _, w2) \<Rightarrow> (None, snd (conn_Close api rawIPConn w2))
           | (None, w2) \<Rightarrow>
               (case SetMulticastInterface api rawIPConn primary w2 of
                  (Some _, w3) \<Rightarrow> (None, snd (conn_Close api rawIPConn w3))
                | (None, w3) \<Rightarrow>
                    (case SetMulticastLoopback api rawIPConn w3 of
                       (Some _, w4) \<Rightarrow> (None, snd (conn_Close api rawIPConn w4))
                     | (None, w4) \<Rightarrow> (Some rawIPConn, w4)))))"

definition buffer_failed :: "'w sock_api \<Rightarrow> nat \<Rightarrow> string \<Rightarrow> goerr \<Rightarrow> 'w \<Rightarrow> goerr option \<times> 'w" where
  "buffer_failed api conn what err w =
     (case conn_Close api conn w of
        (Some closeErr, w') \<Rightarrow>
          (Some (Wrapf (''failed to set '' @ what @ '': '') err
             ('' (close error: '' @ error_string closeErr @ '')'')), w')
      | (None, w') \<Rightarrow> (Some (Wrapf (''failed to set '' @ what @ '': '') err ''''), w'))"

definition set_buffers :: "'w sock_api \<Rightarrow> nat \<Rightarrow> 'w \<Rightarrow> goerr option \<times> 'w" where
  "set_buffers api conn w =
     (case SetReadBuffer api conn BufferSize w of
        (Some err, w1) \<Rightarrow> buffer_failed api conn ''read buffer'' err w1
      | (None, w1) \<Rightarrow>
          (case SetWriteBuffer api conn BufferSize w1 of
             (Some err, w2) \<Rightarrow> buffer_failed api conn ''write buffer'' err w2
           | (None, w2) \<Rightarrow> (None, w2)))"

text \<open>The configuration of the connection, from the joins to the buffers.\<close>

definition configure_conn ::
  "'w sock_api \<Rightarrow> udp_addr \<Rightarrow> iface \<Rightarrow> iface list \<Rightarrow> nat \<Rightarrow> sock_vars \<Rightarrow> 'w \<Rightarrow> goerr option \<times> sock_vars \<times> 'w" where
  "configure_conn api grp primary others conn vars w =
     (case join_rest api conn grp others w of
        (Some err, w1) \<Rightarrow> (Some err, vars, w1)
      | (None, w1) \<Rightarrow>
     (case enableMulticastLoopback api conn w1 of
        (Some err, w2) \<Rightarrow>
          (Some (Wrapf (''failed to enable multicast loopback on interface '' @ if_Name primary @ '': '') err ''''),
           vars, snd (conn_Close api conn w2))
      | (None, w2) \<Rightarrow>
     (case SetControlMessage api conn w2 of
        (Some err, w3) \<Rightarrow>
          (Some (Wrapf ''failed to enable multicast packet metadata: '' err ''''),
           vars, snd (conn_Close api conn w3))
      | (None, w3) \<Rightarrow>
     (case open_raw api primary w3 of
        (raw, w4) \<Rightarrow>
          (case set_buffers api conn w4 of
             (r, w5) \<Rightarrow> (r, vars\<lparr>v_rawConn := raw\<rparr>, w5))))))"

definition new_socket_fn :: "'w sock_api \<Rightarrow> udp_addr \<Rightarrow> 'w \<Rightarrow> goerr option \<times> sock_vars \<times> 'w" where
  "new_socket_fn api grp w =
     (case net_Interfaces api w of
        (Inl err, w1) \<Rightarrow> (Some (Wrapf ''failed to list interfaces: '' err ''''), vars_init, w1)
      | (Inr ifaces, w1) \<Rightarrow>
          (case usable_interfaces ifaces of
             [] \<Rightarrow> (Some (New ''no suitable network interface found''), vars_init, w1)
           | primary # others \<Rightarrow>
               (let vars = vars_init\<lparr>v_interfaceIndex := if_Index primary,
                                     v_interfaceIndices := map if_Index (primary # others)\<rparr>
                in case ListenMulticastUDP api primary grp w1 of
                     (Inl err, w2) \<Rightarrow>
                       (Some (Wrapf (''failed to create multicast socket for '' @ udp_String grp
                              @ '' on interface '' @ if_Name primary @ '': '') err ''''), vars, w2)
                   | (Inr conn, w2) \<Rightarrow>
                       configure_conn api grp primary others conn (vars\<lparr>v_conn := Some conn\<rparr>) w2)))"

definition NewMulticastSocket ::
  "'w netns_api \<Rightarrow> 'w sock_api \<Rightarrow> udp_addr \<Rightarrow> NSHandle \<Rightarrow> 'w os_thread
   \<Rightarrow> MulticastSocket result \<times> 'w os_thread" where
  "NewMulticastSocket nsapi api grp nsHandle t =
     (case Do nsapi nsHandle vars_init (new_socket_fn api grp) t of
        (Some err, vars, t') \<Rightarrow> (Inl err, t')
      | (None, vars, t') \<Rightarrow>
          (Inr \<lparr>sock_conn = (case v_conn vars of Some c \<Rightarrow> c | None \<Rightarrow> 0),
                sock_rawConn = v_rawConn vars, sock_group = grp,
                interfaceIndex = v_interfaceIndex vars,
                interfaceIndices = v_interfaceIndices vars, recentTx = None\<rparr>, t'))"

definition sock_Close :: "'w sock_api \<Rightarrow> MulticastSocket \<Rightarrow> 'w \<Rightarrow> goerr option \<times> 'w" where
  "sock_Close api s w =
     (case (case sock_rawConn s of Some raw \<Rightarrow> conn_Close api raw w | None \<Rightarrow> (None, w)) of
        (rawErr, w1) \<Rightarrow>
          (case conn_Close api (sock_conn s) w1 of
             (Some err, w2) \<Rightarrow> (Some err, w2)
           | (None, w2) \<Rightarrow> (rawErr, w2)))"

definition sock_Group :: "MulticastSocket \<Rightarrow> udp_addr" where
  "sock_Group s = sock_group s"

section \<open>Descriptors\<close>

text \<open>
  What the kernel documents about the descriptors \<open>opn w\<close> that are open: the two listen
  calls open a fresh one or none, \<^verbatim>\<open>Close\<close> releases its descriptor, no other call of the
  construction opens or closes one.
\<close>

definition keeps_open :: "('w \<Rightarrow> nat set) \<Rightarrow> ('w \<Rightarrow> 'r \<times> 'w) \<Rightarrow> bool" where
  "keeps_open opn f \<longleftrightarrow> (\<forall>w r w'. f w = (r, w') \<longrightarrow> opn w' = opn w)"

definition opens_one :: "('w \<Rightarrow> nat set) \<Rightarrow> ('w \<Rightarrow> nat result \<times> 'w) \<Rightarrow> bool" where
  "opens_one opn f \<longleftrightarrow>
     (\<forall>w fd w'. f w = (Inr fd, w') \<longrightarrow> fd \<notin> opn w \<and> opn w' = insert fd (opn w))
     \<and> (\<forall>w e w'. f w = (Inl e, w') \<longrightarrow> opn w' = opn w)"

definition sock_laws :: "'w sock_api \<Rightarrow> ('w \<Rightarrow> nat set) \<Rightarrow> bool" where
  "sock_laws api opn \<longleftrightarrow>
     keeps_open opn (net_Interfaces api)
     \<and> (\<forall>i g. opens_one opn (ListenMulticastUDP api i g))
     \<and> (\<forall>c i g. keeps_open opn (JoinGroup api c i g))
     \<and> (\<forall>c. keeps_open opn (SetMulticastLoopback api c))
     \<and> (\<forall>c. keeps_open opn (SetControlMessage api c))
     \<and> opens_one opn (ListenIP api)
     \<and> (\<forall>c. keeps_open opn (NewRawConn api c))
     \<and> (\<forall>c i. keeps_open opn (SetMulticastInterface api c i))
     \<and> (\<forall>c n. keeps_open opn (SetReadBuffer api c n))
     \<and> (\<forall>c n. keeps_open opn (SetWriteBuffer api c n))
     \<and> (\<forall>c w r w'. conn_Close api c w = (r, w') \<longrightarrow> opn w' = opn w - {c})"

lemma keeps_openD: "keeps_open opn f \<Longrightarrow> f w = (r, w') \<Longrightarrow> opn w' = opn w"
  by (simp add: keeps_open_def)

lemma sock_lawsD:
  assumes "sock_laws api opn"
  shows "net_Interfaces api w = (ri, w') \<Longrightarrow> opn w' = opn w"
    and "ListenMulticastUDP api i g w = (Inr fd, w') \<Longrightarrow> fd \<notin> opn w \<and> opn w' = insert fd (opn w)"
    and "ListenMulticastUDP api i g w = (Inl e, w') \<Longrightarrow> opn w' = opn w"
    and "JoinGroup api c i g w = (r, w') \<Longrightarrow> opn w' = opn w"
    and "SetMulticastLoopback api c w = (r, w') \<Longrightarrow> opn w' = opn w"
    and "SetControlMessage api c w = (r, w') \<Longrightarrow> opn w' = opn w"
    and "ListenIP api w = (Inr fd, w') \<Longrightarrow> fd \<notin> opn w \<and> opn w' = insert fd (opn w)"
    and "ListenIP api w = (Inl e, w') \<Longrightarrow> opn w' = opn w"
    and "NewRawConn api c w = (r, w') \<Longrightarrow> opn w' = opn w"
    and "SetMulticastInterface api c i w = (r, w') \<Longrightarrow> opn w' = opn w"
    and "SetReadBuffer api c n w = (r, w') \<Longrightarrow> opn w' = opn w"
    and "SetWriteBuffer api c n w = (r, w') \<Longrightarrow> opn w' = opn w"
    and "conn_Close api c w = (r, w') \<Longrightarrow> opn w' = opn w - {c}"
proof -
  note l = assms [unfolded sock_laws_def keeps_open_def opens_one_def]
  show "net_Interfaces api w = (ri, w') \<Longrightarrow> opn w' = opn w"
    and "ListenMulticastUDP api i g w = (Inr fd, w') \<Longrightarrow> fd \<notin> opn w \<and> opn w' = insert fd (opn w)"
    and "ListenMulticastUDP api i g w = (Inl e, w') \<Longrightarrow> opn w' = opn w"
    and "JoinGroup api c i g w = (r, w') \<Longrightarrow> opn w' = opn w"
    and "SetMulticastLoopback api c w = (r, w') \<Longrightarrow> opn w' = opn w"
    and "SetControlMessage api c w = (r, w') \<Longrightarrow> opn w' = opn w"
    and "ListenIP api w = (Inr fd, w') \<Longrightarrow> fd \<notin> opn w \<and> opn w' = insert fd (opn w)"
    and "ListenIP api w = (Inl e, w') \<Longrightarrow> opn w' = opn w"
    and "NewRawConn api c w = (r, w') \<Longrightarrow> opn w' = opn w"
    and "SetMulticastInterface api c i w = (r, w') \<Longrightarrow> opn w' = opn w"
    and "SetReadBuffer api c n w = (r, w') \<Longrightarrow> opn w' = opn w"
    and "SetWriteBuffer api c n w = (r, w') \<Longrightarrow> opn w' = opn w"
    and "conn_Close api c w = (r, w') \<Longrightarrow> opn w' = opn w - {c}"
    using l by metis+
qed

lemma conn_Close_snd: "sock_laws api opn \<Longrightarrow> opn (snd (conn_Close api c w)) = opn w - {c}"
  using sock_lawsD(13) [of api opn c w] by (metis prod.collapse)

lemma join_rest_laws:
  assumes "sock_laws api opn" and "join_rest api conn grp is w = (r, w')"
  shows "opn w' = (if r = None then opn w else opn w - {conn})"
  using assms(2)
proof (induction "is" arbitrary: w)
  case (Cons i "is")
  obtain j w1 where j: "JoinGroup api conn i grp w = (j, w1)" by fastforce
  with Cons sock_lawsD(4) [OF assms(1) j] show ?case
    by (auto simp: conn_Close_snd [OF assms(1)] split: option.splits)
qed simp

lemma open_raw_laws:
  assumes laws: "sock_laws api opn" and "open_raw api primary w = (raw, w')"
  shows "opn w' = opn w \<union> set_option raw" and "\<And>r. raw = Some r \<Longrightarrow> r \<notin> opn w"
proof -
  obtain l w1 where l: "ListenIP api w = (l, w1)" by fastforce
  have both: "opn w' = opn w \<union> set_option raw \<and> (\<forall>r. raw = Some r \<longrightarrow> r \<notin> opn w)"
  proof (cases l)
    case (Inl e)
    with l assms(2) sock_lawsD(8) [OF laws, of w e w1] show ?thesis by (simp add: open_raw_def)
  next
    case (Inr fd)
    with l sock_lawsD(7) [OF laws, of w fd w1] have fd: "fd \<notin> opn w" "opn w1 = insert fd (opn w)" by auto
    obtain n w2 where n: "NewRawConn api fd w1 = (n, w2)" by fastforce
    obtain m w3 where m: "SetMulticastInterface api fd primary w2 = (m, w3)" by fastforce
    obtain b w4 where b: "SetMulticastLoopback api fd w3 = (b, w4)" by fastforce
    have "opn w2 = insert fd (opn w)" "opn w3 = insert fd (opn w)" "opn w4 = insert fd (opn w)"
      using sock_lawsD(9) [OF laws n] sock_lawsD(10) [OF laws m] sock_lawsD(5) [OF laws b] fd(2) by auto
    with fd l Inr n m b assms(2) show ?thesis
      by (auto simp: open_raw_def conn_Close_snd [OF laws] split: option.splits)
  qed
  then show "opn w' = opn w \<union> set_option raw" and "\<And>r. raw = Some r \<Longrightarrow> r \<notin> opn w" by auto
qed

lemma set_buffers_laws:
  assumes laws: "sock_laws api opn" and "set_buffers api conn w = (r, w')"
  shows "opn w' = (if r = None then opn w else opn w - {conn})"
proof -
  obtain a w1 where a: "SetReadBuffer api conn BufferSize w = (a, w1)" by fastforce
  obtain b w2 where b: "SetWriteBuffer api conn BufferSize w1 = (b, w2)" by fastforce
  have "opn w1 = opn w" "opn w2 = opn w"
    using sock_lawsD(11) [OF laws a] sock_lawsD(12) [OF laws b] by auto
  moreover have "buffer_failed api conn s e v = (r, w') \<Longrightarrow> r \<noteq> None \<and> opn w' = opn v - {conn}" for s e v
    using sock_lawsD(13) [OF laws, of conn v] by (auto simp: buffer_failed_def split: prod.splits option.splits)
  ultimately show ?thesis using a b assms(2) by (fastforce simp: set_buffers_def split: option.splits)
qed

text \<open>
  The descriptors after the configuration: on success the connection and the raw
  connection stay open; on failure the connection is closed, and what stays open is the
  raw connection when the buffers could not be set.
\<close>

lemma configure_conn_laws:
  assumes laws: "sock_laws api opn" and conn: "conn \<in> opn w" and raw0: "v_rawConn vars = None"
    and run: "configure_conn api grp primary others conn vars w = (r, vars', w')"
  shows "opn w' = (if r = None then opn w else opn w - {conn}) \<union> set_option (v_rawConn vars')"
    and "v_conn vars' = v_conn vars" and "v_rawConn vars' \<noteq> Some conn"
    and "set_option (v_rawConn vars') \<inter> opn w = {}"
proof -
  obtain j w1 where j: "join_rest api conn grp others w = (j, w1)" by fastforce
  obtain l w2 where l: "enableMulticastLoopback api conn w1 = (l, w2)" by fastforce
  obtain c w3 where c: "SetControlMessage api conn w2 = (c, w3)" by fastforce
  obtain raw w4 where ra: "open_raw api primary w3 = (raw, w4)" by fastforce
  obtain s w5 where s: "set_buffers api conn w4 = (s, w5)" by fastforce
  have o2: "opn w2 = opn w1" and o3: "opn w3 = opn w2"
    using sock_lawsD(5) [OF laws l [unfolded enableMulticastLoopback_def]] sock_lawsD(6) [OF laws c] by auto
  have o1: "opn w1 = (if j = None then opn w else opn w - {conn})" using join_rest_laws [OF laws j] .
  have o4: "opn w4 = opn w3 \<union> set_option raw" using open_raw_laws(1) [OF laws ra] .
  have o5: "opn w5 = (if s = None then opn w4 else opn w4 - {conn})" using set_buffers_laws [OF laws s] .
  have fresh: "set_option raw \<inter> opn w = {} \<and> raw \<noteq> Some conn" if "j = None"
    using open_raw_laws(2) [OF laws ra] o1 o2 o3 conn that by auto
  have "opn w' = (if r = None then opn w else opn w - {conn}) \<union> set_option (v_rawConn vars')
     \<and> v_conn vars' = v_conn vars \<and> v_rawConn vars' \<noteq> Some conn
     \<and> set_option (v_rawConn vars') \<inter> opn w = {}"
  proof (cases "j = None \<and> l = None \<and> c = None")
    case True
    with run j l c ra s have "r = s" "vars' = vars\<lparr>v_rawConn := raw\<rparr>" "w' = w5"
      by (auto simp: configure_conn_def)
    with True o1 o2 o3 o4 o5 fresh show ?thesis by auto
  next
    case False
    with run j l c raw0 o1 o2 o3 show ?thesis
      by (auto simp: configure_conn_def conn_Close_snd [OF laws] split: option.splits)
  qed
  then show "opn w' = (if r = None then opn w else opn w - {conn}) \<union> set_option (v_rawConn vars')"
    and "v_conn vars' = v_conn vars" and "v_rawConn vars' \<noteq> Some conn"
    and "set_option (v_rawConn vars') \<inter> opn w = {}" by blast+
qed

lemma new_socket_fn_laws:
  assumes laws: "sock_laws api opn" and run: "new_socket_fn api grp w = (r, vars, w')"
  shows "r \<noteq> None \<Longrightarrow> opn w' = opn w \<union> set_option (v_rawConn vars)"
    and "r = None \<Longrightarrow> \<exists>c. v_conn vars = Some c \<and> c \<notin> opn w \<and> v_rawConn vars \<noteq> Some c
           \<and> opn w' = insert c (opn w \<union> set_option (v_rawConn vars))"
    and "set_option (v_rawConn vars) \<inter> opn w = {}"
proof -
  obtain i w1 where i: "net_Interfaces api w = (i, w1)" by fastforce
  have o1: "opn w1 = opn w" using sock_lawsD(1) [OF laws i] .
  have both: "(r \<noteq> None \<longrightarrow> opn w' = opn w \<union> set_option (v_rawConn vars))
    \<and> (r = None \<longrightarrow> (\<exists>c. v_conn vars = Some c \<and> c \<notin> opn w \<and> v_rawConn vars \<noteq> Some c
           \<and> opn w' = insert c (opn w \<union> set_option (v_rawConn vars))))
    \<and> set_option (v_rawConn vars) \<inter> opn w = {}"
  proof -
    consider (err) e where "i = Inl e" | (none) ifaces where "i = Inr ifaces" "usable_interfaces ifaces = []"
      | (some) ifaces p ps where "i = Inr ifaces" "usable_interfaces ifaces = p # ps"
      by (metis neq_Nil_conv sum.exhaust)
    then show ?thesis
    proof cases
      case err
      with run i have "r \<noteq> None" "w' = w1" "vars = vars_init" by (auto simp: new_socket_fn_def)
      with o1 show ?thesis by (simp add: vars_init_def)
    next
      case none
      with run i have "r \<noteq> None" "w' = w1" "vars = vars_init" by (auto simp: new_socket_fn_def)
      with o1 show ?thesis by (simp add: vars_init_def)
    next
      case u: some
    let ?v = "vars_init\<lparr>v_interfaceIndex := if_Index p, v_interfaceIndices := map if_Index (p # ps)\<rparr>"
    obtain l w2 where l: "ListenMulticastUDP api p grp w1 = (l, w2)" by fastforce
    show ?thesis
    proof (cases l)
      case (Inl e)
      with run i u l o1 sock_lawsD(3) [OF laws, of p grp w1 e w2] show ?thesis
        by (auto simp: new_socket_fn_def vars_init_def Let_def)
    next
      case (Inr c)
      with l sock_lawsD(2) [OF laws, of p grp w1 c w2] o1
      have c: "c \<notin> opn w" "opn w2 = insert c (opn w)" by auto
      from run i u l Inr have cc: "configure_conn api grp p ps c (?v\<lparr>v_conn := Some c\<rparr>) w2 = (r, vars, w')"
        by (simp add: new_socket_fn_def Let_def)
      have pre: "c \<in> opn w2" "v_rawConn (?v\<lparr>v_conn := Some c\<rparr>) = None" using c by (simp_all add: vars_init_def)
      from configure_conn_laws [OF laws pre cc] c show ?thesis by auto
      qed
    qed
  qed
  then show "r \<noteq> None \<Longrightarrow> opn w' = opn w \<union> set_option (v_rawConn vars)"
    and "r = None \<Longrightarrow> \<exists>c. v_conn vars = Some c \<and> c \<notin> opn w \<and> v_rawConn vars \<noteq> Some c
           \<and> opn w' = insert c (opn w \<union> set_option (v_rawConn vars))"
    and "set_option (v_rawConn vars) \<inter> opn w = {}" by blast+
qed

text \<open>\<^verbatim>\<open>Close\<close> releases both descriptors whatever errors it meets.\<close>

lemma sock_Close_laws:
  assumes "sock_laws api opn" and "sock_Close api s w = (r, w')"
  shows "opn w' = opn w - insert (sock_conn s) (set_option (sock_rawConn s))"
  using assms(2) sock_lawsD(13) [OF assms(1)]
  by (auto simp: sock_Close_def split: prod.splits option.splits)

end
