(* ===== verification/SocketIO.thy ===== *)
theory SocketIO
  imports Socket
begin

text \<open>
  \<^verbatim>\<open>internal/socket/multicast.go\<close>, reading and writing: the map of recently sent payload
  hashes, \<^verbatim>\<open>ReadFrom\<close> with its loop over the socket's own echoes, \<^verbatim>\<open>WriteToGroup\<close> with
  the source-preserving raw copy and the ordinary copy on every interface.
  A panic of the Go code is the result \<open>None\<close>.
\<close>

section \<open>Self-echo suppression\<close>

definition live_entries :: "gotime \<Rightarrow> recent_map option \<Rightarrow> recent_map" where
  "live_entries now prev =
     (case prev of None \<Rightarrow> Map.empty | Some m \<Rightarrow> filter_map (\<lambda>hash exp. After exp now) m)"

definition markSent :: "gotime \<Rightarrow> MulticastSocket \<Rightarrow> byte list \<Rightarrow> MulticastSocket" where
  "markSent now s data =
     s\<lparr>recentTx := Some ((live_entries now (recentTx s))(md5_Sum data \<mapsto> now + selfEchoWindow))\<rparr>"

text \<open>\<open>recent\<close> is what \<^verbatim>\<open>s.recentTx.Load()\<close> returns.\<close>

definition isSelfEcho :: "recent_map option \<Rightarrow> gotime \<Rightarrow> byte list \<Rightarrow> bool" where
  "isSelfEcho recent now data =
     (case recent of
        None \<Rightarrow> False
      | Some m \<Rightarrow> (case m (md5_Sum data) of None \<Rightarrow> False | Some exp \<Rightarrow> After exp now))"

lemma isSelfEcho_iff:
  "isSelfEcho recent now data \<longleftrightarrow>
   (\<exists>m e. recent = Some m \<and> m (md5_Sum data) = Some e \<and> now < e)"
  by (auto simp: isSelfEcho_def go_defs split: option.splits)

lemma markSent_echo:
  "isSelfEcho (recentTx (markSent now s data)) t data \<longleftrightarrow> t < now + selfEchoWindow"
  by (auto simp: isSelfEcho_iff markSent_def)

text \<open>
  Marking another payload changes nothing about this one as long as its own entry is live;
  an entry that has expired is dropped, which \<open>isSelfEcho\<close> does not notice either.
\<close>

lemma markSent_other:
  assumes "md5_Sum other \<noteq> md5_Sum data" and "now \<le> t"
  shows "isSelfEcho (recentTx (markSent now s other)) t data \<longleftrightarrow> isSelfEcho (recentTx s) t data"
  using assms by (auto simp: isSelfEcho_iff markSent_def live_entries_def go_defs split: option.splits)

lemma markSent_fields [simp]:
  "sock_conn (markSent now s data) = sock_conn s" "sock_rawConn (markSent now s data) = sock_rawConn s"
  "sock_group (markSent now s data) = sock_group s"
  "interfaceIndex (markSent now s data) = interfaceIndex s"
  "interfaceIndices (markSent now s data) = interfaceIndices s"
  by (simp_all add: markSent_def)

text \<open>The state of the map after a sequence of writes at given instants.\<close>

definition sent_history :: "MulticastSocket \<Rightarrow> (gotime \<times> byte list) list \<Rightarrow> MulticastSocket" where
  "sent_history s xs = foldl (\<lambda>s x. markSent (fst x) s (snd x)) s xs"

lemma sent_history_snoc:
  "sent_history s (xs @ [(t, d)]) = markSent t (sent_history s xs) d"
  by (simp add: sent_history_def)

text \<open>
  A payload is taken for an echo exactly when a payload with its hash was written within the
  last \<^verbatim>\<open>selfEchoWindow\<close>.
\<close>

lemma sent_history_echo:
  assumes "recentTx s = None" and "sorted (map fst xs)" and "\<And>x. x \<in> set xs \<Longrightarrow> fst x \<le> now"
  shows "isSelfEcho (recentTx (sent_history s xs)) now data \<longleftrightarrow>
         (\<exists>(t, d) \<in> set xs. md5_Sum d = md5_Sum data \<and> now < t + selfEchoWindow)"
  using assms(2,3)
proof (induction xs rule: rev_induct)
  case Nil
  then show ?case using assms(1) by (simp add: sent_history_def isSelfEcho_iff)
next
  case (snoc x xs)
  obtain t d where x: "x = (t, d)" by fastforce
  have IH: "isSelfEcho (recentTx (sent_history s xs)) now data \<longleftrightarrow>
      (\<exists>(t, d) \<in> set xs. md5_Sum d = md5_Sum data \<and> now < t + selfEchoWindow)"
    using snoc by (auto simp: sorted_append)
  have tn: "t \<le> now" using snoc.prems(2) [of x] x by simp
  show ?case
  proof (cases "md5_Sum d = md5_Sum data")
    case True
    then have "isSelfEcho (recentTx (markSent t (sent_history s xs) d)) now data \<longleftrightarrow> now < t + selfEchoWindow"
      using markSent_echo [of t _ d now] by (simp add: isSelfEcho_iff)
    moreover have "now < t' + selfEchoWindow \<Longrightarrow> now < t + selfEchoWindow" if "(t', d') \<in> set xs" for t' d'
      using snoc.prems(1) that x by (force simp: sorted_append)
    ultimately show ?thesis using True by (auto simp: x sent_history_snoc)
  next
    case False
    with IH show ?thesis by (auto simp: x sent_history_snoc markSent_other [OF False tn])
  qed
qed

section \<open>ReadFrom\<close>

text \<open>
  What one turn of the read loop sees: the result of \<^verbatim>\<open>packetConn.ReadFrom\<close> (the bytes, the
  TTL of the control message unless it is nil, the source unless it is no UDP address), the
  map loaded by \<^verbatim>\<open>isSelfEcho\<close> and the instant of that call. The send worker may replace the
  map between two turns.
\<close>

datatype read_outcome = ReadErr goerr | ReadPkt "byte list" "int option" "udp_addr option"

record read_event =
  ev_outcome :: read_outcome
  ev_recent :: "recent_map option"
  ev_now :: gotime

text \<open>\<open>None\<close>: the events are used up and the loop still waits for the kernel.\<close>

fun ReadFrom_loop :: "read_event list \<Rightarrow> (byte list \<times> udp_addr \<times> int) result option" where
  "ReadFrom_loop [] = None"
| "ReadFrom_loop (ev # evs) =
     (case ev_outcome ev of
        ReadErr err \<Rightarrow> Some (Inl err)
      | ReadPkt data control source \<Rightarrow>
          (case source of
             None \<Rightarrow> Some (Inl (New ''unexpected multicast source address type''))
           | Some addr \<Rightarrow>
               if isSelfEcho (ev_recent ev) (ev_now ev) data then ReadFrom_loop evs
               else Some (Inr (data, addr, case control of None \<Rightarrow> 0 | Some ttl \<Rightarrow> ttl))))"

definition ReadFrom ::
  "goerr option \<Rightarrow> read_event list \<Rightarrow> (byte list \<times> udp_addr \<times> int) result option" where
  "ReadFrom deadline_err evs =
     (case deadline_err of Some err \<Rightarrow> Some (Inl err) | None \<Rightarrow> ReadFrom_loop evs)"

definition discards :: "read_event \<Rightarrow> bool" where
  "discards ev \<longleftrightarrow>
     (case ev_outcome ev of
        ReadPkt data control (Some addr) \<Rightarrow> isSelfEcho (ev_recent ev) (ev_now ev) data
      | _ \<Rightarrow> False)"

definition read_result :: "read_event \<Rightarrow> (byte list \<times> udp_addr \<times> int) result" where
  "read_result ev =
     (case ev_outcome ev of
        ReadErr err \<Rightarrow> Inl err
      | ReadPkt data control None \<Rightarrow> Inl (New ''unexpected multicast source address type'')
      | ReadPkt data control (Some addr) \<Rightarrow> Inr (data, addr, case control of None \<Rightarrow> 0 | Some ttl \<Rightarrow> ttl))"

lemma ReadFrom_loop_find:
  "ReadFrom_loop evs = map_option read_result (find (\<lambda>ev. \<not> discards ev) evs)"
  by (induction evs) (auto simp: discards_def read_result_def split: read_outcome.split option.split)

section \<open>Writing\<close>

definition egressInterfaceIndices :: "MulticastSocket \<Rightarrow> int list" where
  "egressInterfaceIndices s =
     (if 0 < length (interfaceIndices s) then interfaceIndices s else [interfaceIndex s])"

lemma egress_markSent [simp]: "egressInterfaceIndices (markSent now s data) = egressInterfaceIndices s"
  by (simp add: egressInterfaceIndices_def)

lemma egress_nonempty: "egressInterfaceIndices s \<noteq> []"
  by (simp add: egressInterfaceIndices_def)

definition sock_WriteTo ::
  "'w sock_api \<Rightarrow> MulticastSocket \<Rightarrow> byte list \<Rightarrow> udp_addr \<Rightarrow> 'w \<Rightarrow> nat result \<times> 'w" where
  "sock_WriteTo api s data addr w =
     (case time_Now api w of (now, w1) \<Rightarrow>
       (case SetWriteDeadline api (sock_conn s) (now + WriteTimeout) w1 of
          (Some err, w2) \<Rightarrow> (Inl err, w2)
        | (None, w2) \<Rightarrow> WriteToUDP api (sock_conn s) data addr w2))"

text \<open>The raw copies, one per egress interface: whether one was sent, and the joined errors.\<close>

fun raw_egress ::
  "'w sock_api \<Rightarrow> nat \<Rightarrow> ip_header \<Rightarrow> byte list \<Rightarrow> int list \<Rightarrow> bool \<times> goerr option \<Rightarrow> 'w
   \<Rightarrow> (bool \<times> goerr option) \<times> 'w" where
  "raw_egress api raw hdr payload [] acc w = (acc, w)"
| "raw_egress api raw hdr payload (i # is) acc w =
     (case rawConn_WriteTo api raw hdr payload i w of
        (Some err, w') \<Rightarrow> raw_egress api raw hdr payload is (fst acc, errors_Join (snd acc) (Some err)) w'
      | (None, w') \<Rightarrow> raw_egress api raw hdr payload is (True, snd acc) w')"

definition raw_header :: "udp_addr \<Rightarrow> udp_addr \<Rightarrow> int \<Rightarrow> byte list \<Rightarrow> ip_header" where
  "raw_header source grp ttl data =
     \<lparr>hdr_Version = 4, hdr_Len = 20, hdr_TotalLen = 20 + (8 + int (length data)), hdr_TTL = ttl,
      hdr_Protocol = 17, hdr_Src = addr_IP source, hdr_Dst = addr_IP grp\<rparr>"

text \<open>Called with a raw connection only; \<open>raw\<close> is \<^verbatim>\<open>s.rawConn\<close>.\<close>

definition writeRawUDP ::
  "'w sock_api \<Rightarrow> MulticastSocket \<Rightarrow> nat \<Rightarrow> byte list \<Rightarrow> udp_addr \<Rightarrow> int \<Rightarrow> 'w
   \<Rightarrow> ((nat \<times> goerr option) \<times> 'w) option" where
  "writeRawUDP api s raw data source ttl w =
     (if addr_Port source < 0 \<or> 65535 < addr_Port source
      then Some ((0, Some (New (''invalid UDP source port '' @ itoa (addr_Port source)))), w)
      else if 65507 < length data
      then Some ((0, Some (New (''UDP payload too large: '' @ itoa (int (length data))))), w)
      else
        (let ttl' = (if ttl \<le> 0 then 1 else ttl)
         in case udp_payload source (sock_group s) data of
              None \<Rightarrow> None
            | Some payload \<Rightarrow>
                (case time_Now api w of (now, w1) \<Rightarrow>
                (case SetWriteDeadline api raw (now + WriteTimeout) w1 of
                   (Some err, w2) \<Rightarrow> Some ((0, Some err), w2)
                 | (None, w2) \<Rightarrow>
                     (case raw_egress api raw (raw_header source (sock_group s) ttl' data) payload
                            (egressInterfaceIndices s) (False, None) w2 of
                        ((sent, writeErr), w3) \<Rightarrow>
                          if \<not> sent then Some ((0, writeErr), w3)
                          else Some ((length data, None), w3))))))"

text \<open>The ordinary copies: \<^verbatim>\<open>sent\<close> is the count of the last successful write.\<close>

fun group_egress ::
  "'w sock_api \<Rightarrow> nat \<Rightarrow> udp_addr \<Rightarrow> byte list \<Rightarrow> int list \<Rightarrow> nat \<times> goerr option \<Rightarrow> 'w
   \<Rightarrow> (nat \<times> goerr option) \<times> 'w" where
  "group_egress api conn grp data [] acc w = (acc, w)"
| "group_egress api conn grp data (i # is) acc w =
     (case packetConn_WriteTo api conn data i grp w of
        (Inl err, w') \<Rightarrow> group_egress api conn grp data is (fst acc, errors_Join (snd acc) (Some err)) w'
      | (Inr n, w') \<Rightarrow> group_egress api conn grp data is (n, snd acc) w')"

text \<open>
  The source-preserving part of \<^verbatim>\<open>WriteToGroup\<close>: \<^verbatim>\<open>preserved\<close> and \<^verbatim>\<open>writeErr\<close> after it.
\<close>

definition preserve_source ::
  "'w sock_api \<Rightarrow> MulticastSocket \<Rightarrow> byte list \<Rightarrow> udp_addr option \<Rightarrow> int \<Rightarrow> 'w
   \<Rightarrow> ((bool \<times> goerr option) \<times> 'w) option" where
  "preserve_source api s data source ttl w =
     (case source of
        None \<Rightarrow> Some ((False, None), w)
      | Some src \<Rightarrow>
          if To4 (addr_IP src) \<noteq> None \<and> \<not> IsUnspecified (addr_IP src)
          then (case sock_rawConn s of
                  None \<Rightarrow> Some ((False, None), w)
                | Some raw \<Rightarrow>
                    (case writeRawUDP api s raw data src ttl w of
                       None \<Rightarrow> None
                     | Some ((_, Some err), w') \<Rightarrow>
                         Some ((False, errors_Join None (Some (Wrapf ''source-preserving write: '' err ''''))), w')
                     | Some ((_, None), w') \<Rightarrow> Some ((True, None), w')))
          else Some ((False, None), w))"

definition write_copies ::
  "'w sock_api \<Rightarrow> MulticastSocket \<Rightarrow> byte list \<Rightarrow> udp_addr option \<Rightarrow> int \<Rightarrow> 'w
   \<Rightarrow> ((nat \<times> goerr option) \<times> 'w) option" where
  "write_copies api s data source ttl w =
     (case preserve_source api s data source ttl w of
        None \<Rightarrow> None
      | Some ((preserved, writeErr), w1) \<Rightarrow>
          (case group_egress api (sock_conn s) (sock_group s) data (egressInterfaceIndices s) (0, writeErr) w1 of
             ((sent, writeErr'), w2) \<Rightarrow>
               if sent = 0 \<and> \<not> preserved then Some ((0, writeErr'), w2)
               else Some ((if sent = 0 then length data else sent, None), w2)))"

definition WriteToGroup ::
  "'w sock_api \<Rightarrow> MulticastSocket \<Rightarrow> byte list \<Rightarrow> udp_addr option \<Rightarrow> int \<Rightarrow> 'w
   \<Rightarrow> ((nat \<times> goerr option) \<times> MulticastSocket \<times> 'w) option" where
  "WriteToGroup api s data source ttl w =
     (case time_Now api w of (now, w1) \<Rightarrow>
      let s' = markSent now s data
      in case time_Now api w1 of (now', w2) \<Rightarrow>
        (case SetWriteDeadline api (sock_conn s) (now' + WriteTimeout) w2 of
           (Some err, w3) \<Rightarrow> Some ((0, Some err), s', w3)
         | (None, w3) \<Rightarrow>
             (case (if 0 < ttl then SetMulticastTTL api (sock_conn s) ttl w3 else (None, w3)) of
                (Some err, w4) \<Rightarrow>
                  Some ((0, Some (Wrapf (''set multicast TTL '' @ itoa ttl @ '': '') err '''')), s', w4)
              | (None, w4) \<Rightarrow>
                  (case write_copies api s' data source ttl w4 of
                     None \<Rightarrow> None
                   | Some (r, w5) \<Rightarrow> Some (r, s', w5)))))"

section \<open>What a write does\<close>

text \<open>\<^verbatim>\<open>udpChecksum\<close> slices the group address, so only an IPv4 group is safe.\<close>

lemma udpChecksum_None_iff: "udpChecksum a b p = None \<longleftrightarrow> To4 a = None \<or> To4 b = None"
  by (auto simp: udpChecksum_def Let_def split: option.splits)

lemma udp_payload_None_iff:
  "udp_payload source grp data = None \<longleftrightarrow> To4 (addr_IP source) = None \<or> To4 (addr_IP grp) = None"
  by (simp add: udp_payload_eq Let_def udpChecksum_None_iff)

lemma writeRawUDP_Some:
  assumes "To4 (addr_IP source) \<noteq> None" and "To4 (addr_IP (sock_group s)) \<noteq> None"
  shows "writeRawUDP api s raw data source ttl w \<noteq> None"
proof -
  from assms have "udp_payload source (sock_group s) data \<noteq> None"
    by (simp add: udp_payload_None_iff)
  then show ?thesis
    by (auto simp: writeRawUDP_def Let_def split: prod.splits option.splits)
qed

lemma preserve_source_Some:
  assumes "To4 (addr_IP (sock_group s)) \<noteq> None"
  shows "preserve_source api s data source ttl w \<noteq> None"
proof (cases "\<exists>src raw. source = Some src \<and> To4 (addr_IP src) \<noteq> None \<and> sock_rawConn s = Some raw")
  case True
  then obtain src raw where "source = Some src" "To4 (addr_IP src) \<noteq> None" "sock_rawConn s = Some raw"
    by blast
  moreover from this(2) have "writeRawUDP api s raw data src ttl w \<noteq> None"
    using assms by (rule writeRawUDP_Some)
  ultimately show ?thesis by (auto simp: preserve_source_def split: option.splits)
qed (auto simp: preserve_source_def split: option.splits)

lemma write_copies_Some:
  assumes "To4 (addr_IP (sock_group s)) \<noteq> None"
  shows "write_copies api s data source ttl w \<noteq> None"
  using preserve_source_Some [OF assms, of api data source ttl w]
  by (auto simp: write_copies_def split: option.splits prod.splits)

lemma WriteToGroup_Some:
  assumes "To4 (addr_IP (sock_group s)) \<noteq> None"
  shows "WriteToGroup api s data source ttl w \<noteq> None"
proof -
  obtain now w1 where 1: "time_Now api w = (now, w1)" by fastforce
  obtain now' w2 where 2: "time_Now api w1 = (now', w2)" by fastforce
  obtain d w3 where 3: "SetWriteDeadline api (sock_conn s) (now' + WriteTimeout) w2 = (d, w3)" by fastforce
  obtain m w4 where 4: "(if 0 < ttl then SetMulticastTTL api (sock_conn s) ttl w3 else (None, w3)) = (m, w4)"
    by fastforce
  have "write_copies api (markSent now s data) data source ttl w4 \<noteq> None"
    using assms by (intro write_copies_Some) simp
  then show ?thesis
    unfolding WriteToGroup_def Let_def 1 prod.case 2 3 4
    by (cases d; cases m) (auto simp: 4)
qed

text \<open>The payload is in the map before anything reaches the wire, whatever happens next.\<close>

lemma WriteToGroup_marks:
  assumes "WriteToGroup api s data source ttl w = Some (r, s', w')"
  shows "s' = markSent (fst (time_Now api w)) s data"
  using assms by (auto simp: WriteToGroup_def Let_def split: prod.splits option.splits)

text \<open>With no TTL from the control message, the option of the socket is not touched.\<close>

lemma WriteToGroup_keeps_TTL:
  assumes "ttl \<le> 0"
  shows "WriteToGroup (api\<lparr>SetMulticastTTL := f\<rparr>) s data source ttl w = WriteToGroup api s data source ttl w"
proof -
  let ?api = "api\<lparr>SetMulticastTTL := f\<rparr>"
  have sel: "time_Now ?api = time_Now api" "SetWriteDeadline ?api = SetWriteDeadline api" by simp_all
  have 1: "raw_egress ?api raw hdr p is acc v = raw_egress api raw hdr p is acc v" for raw hdr p "is" acc v
    by (induction "is" arbitrary: acc v) (auto split: prod.split option.split)
  have 2: "group_egress ?api c g d is acc v = group_egress api c g d is acc v" for c g d "is" acc v
    by (induction "is" arbitrary: acc v) (auto split: prod.split sum.split)
  have 3: "writeRawUDP ?api q raw d src k v = writeRawUDP api q raw d src k v" for q raw d src k v
    unfolding writeRawUDP_def 1 sel ..
  have 4: "write_copies ?api q d src k v = write_copies api q d src k v" for q d src k v
    unfolding write_copies_def preserve_source_def 2 3 ..
  from assms have "\<not> 0 < ttl" by simp
  then show ?thesis unfolding WriteToGroup_def Let_def 4 sel by (simp only: if_False)
qed

text \<open>
  The count and the error of the ordinary copies: with a kernel that writes whole
  datagrams, the count is the length as soon as one interface took the packet.
\<close>

definition whole_writes :: "'w sock_api \<Rightarrow> bool" where
  "whole_writes api \<longleftrightarrow>
     (\<forall>c d i g w n w'. packetConn_WriteTo api c d i g w = (Inr n, w') \<longrightarrow> n = length d)"

lemma whole_writesD: "whole_writes api \<Longrightarrow> packetConn_WriteTo api c d i g w = (Inr n, w') \<Longrightarrow> n = length d"
  unfolding whole_writes_def by blast

lemma group_egress_count:
  assumes whole: "whole_writes api"
    and "group_egress api c g data is (n0, e0) w = ((n, e), w')"
    and "n0 = 0 \<or> n0 = length data"
  shows "n = 0 \<or> n = length data"
  using assms(2,3)
proof (induction "is" arbitrary: n0 e0 w)
  case (Cons i "is")
  obtain r w1 where r: "packetConn_WriteTo api c data i g w = (r, w1)" by fastforce
  show ?case
  proof (cases r)
    case (Inr m)
    with r whole have "m = length data" by (auto dest: whole_writesD)
    with Cons r Inr show ?thesis by auto
  qed (use Cons r in auto)
qed auto

lemma group_egress_error_mono:
  "group_egress api c g data is (n0, Some e0) w = ((n, e), w') \<Longrightarrow> e \<noteq> None"
proof (induction "is" arbitrary: n0 e0 w)
  case (Cons i "is")
  obtain r w1 where r: "packetConn_WriteTo api c data i g w = (r, w1)" by fastforce
  with Cons show ?case by (cases r) auto
qed auto

lemma group_egress_failed:
  assumes "whole_writes api" and "data \<noteq> []" and "is \<noteq> []"
    and "group_egress api c g data is (0, e0) w = ((0, e), w')"
  shows "e \<noteq> None"
  using assms(3,4)
proof (induction "is" arbitrary: e0 w)
  case (Cons i "is")
  obtain r w1 where r: "packetConn_WriteTo api c data i g w = (r, w1)" by fastforce
  have stuck: "group_egress api c g data is (length data, e1) w1 = ((n, e), w') \<Longrightarrow> n = length data" for e1 n "is" w1
  proof (induction "is" arbitrary: e1 w1)
    case (Cons j js)
    obtain q w2 where q: "packetConn_WriteTo api c data j g w1 = (q, w2)" by fastforce
    show ?case
    proof (cases q)
      case (Inr m)
      with q assms(1) have "m = length data" by (auto dest: whole_writesD)
      with Cons q Inr show ?thesis by auto
    qed (use Cons q in auto)
  qed auto
  show ?case
  proof (cases r)
    case (Inl err)
    with r Cons.prems have "group_egress api c g data is (0, errors_Join e0 (Some err)) w1 = ((0, e), w')" by simp
    moreover obtain j where "errors_Join e0 (Some err) = Some j" by (cases e0) auto
    ultimately show ?thesis using group_egress_error_mono by metis
  next
    case (Inr n)
    moreover from this r assms(1) have "n = length data" by (auto dest: whole_writesD)
    ultimately have "group_egress api c g data is (length data, e0) w1 = ((0, e), w')"
      using r Cons.prems by simp
    from stuck [OF this] assms(2) show ?thesis by simp
  qed
qed simp

lemma write_copies_result:
  assumes whole: "whole_writes api" and data: "data \<noteq> []"
    and run: "write_copies api s data source ttl w = Some ((n, err), w')"
  shows "(err = None \<and> n = length data) \<or> (err \<noteq> None \<and> n = 0)"
proof -
  obtain pr e w1 where p: "preserve_source api s data source ttl w = Some ((pr, e), w1)"
    using run by (auto simp: write_copies_def split: option.splits)
  obtain m f w2 where g: "group_egress api (sock_conn s) (sock_group s) data (egressInterfaceIndices s) (0, e) w1 = ((m, f), w2)"
    by (metis prod_cases3 prod.collapse)
  have m: "m = 0 \<or> m = length data" using group_egress_count [OF whole g] by simp
  show ?thesis
  proof (cases "m = 0 \<and> \<not> pr")
    case True
    with g have "f \<noteq> None" using group_egress_failed [OF whole data egress_nonempty] by blast
    with True run p g show ?thesis by (auto simp: write_copies_def)
  next
    case False
    with m run p g show ?thesis by (auto simp: write_copies_def split: if_splits)
  qed
qed

text \<open>Every raw copy that leaves the socket carries the same header and segment.\<close>

lemma raw_header_fields:
  "hdr_TotalLen (raw_header source grp ttl data) = hdr_Len (raw_header source grp ttl data) + 8 + int (length data)"
  "hdr_Src (raw_header source grp ttl data) = addr_IP source"
  "hdr_Dst (raw_header source grp ttl data) = addr_IP grp"
  by (simp_all add: raw_header_def)

end
