(* ===== verification/Middleware.thy ===== *)
theory Middleware
  imports MD5
begin

text \<open>
  \<^verbatim>\<open>internal/middleware/middleware.go\<close> and \<^verbatim>\<open>internal/middleware/loop_guard.go\<close>: packets,
  the middleware chain and the relay-wide loop guard. A packet's \<^verbatim>\<open>Data\<close> is optional
  because nil marks a dropped packet; a datagram of no bytes is \<open>Some []\<close>. Each call is
  given the instant \<^verbatim>\<open>time.Now()\<close> returns in it. The locale \<open>middleware\<close> is the
  contract of the Go interface: a component passes a packet on unchanged or drops it,
  and leaves a dropped packet dropped.
\<close>

section \<open>Packets\<close>

record packet =
  Data :: "byte list option"
  Source :: "udp_addr option"
  Group :: "udp_addr option"
  TTL :: int
  SourcePath :: string

text \<open>The bytes Go reads from a possibly nil slice.\<close>

definition bytes_of :: "byte list option \<Rightarrow> byte list" where
  "bytes_of d = (case d of None \<Rightarrow> [] | Some bs \<Rightarrow> bs)"

lemma bytes_of_simps [simp]: "bytes_of None = []" "bytes_of (Some bs) = bs"
  by (simp_all add: bytes_of_def)

section \<open>The middleware interface\<close>

locale middleware =
  fixes process :: "gotime \<Rightarrow> 'm \<Rightarrow> packet \<Rightarrow> 'm \<times> packet"
    and stop :: "'m \<Rightarrow> 'm"
  assumes process_result:
    "process now m pkt = (m', pkt') \<Longrightarrow> pkt' = pkt \<or> pkt' = pkt\<lparr>Data := None\<rparr>"
begin

lemma process_fields:
  assumes "process now m pkt = (m', pkt')"
  shows "Source pkt' = Source pkt" and "Group pkt' = Group pkt" and "TTL pkt' = TTL pkt"
    and "SourcePath pkt' = SourcePath pkt"
  using process_result [OF assms] by auto

lemma process_passed:
  assumes "process now m pkt = (m', pkt')" and "Data pkt' \<noteq> None"
  shows "pkt' = pkt"
  using process_result [OF assms(1)] assms(2) by auto

lemma process_dropped_stays:
  assumes "process now m pkt = (m', pkt')" and "Data pkt = None"
  shows "Data pkt' = None"
  using process_result [OF assms(1)] assms(2) by auto

text \<open>Processing a timed sequence of packets and keeping those that pass.\<close>

primrec run :: "'m \<Rightarrow> (gotime \<times> packet) list \<Rightarrow> (gotime \<times> packet) list" where
  "run m [] = []"
| "run m (x # xs) =
     (case process (fst x) m (snd x) of
        (m', pkt') \<Rightarrow> if Data pkt' = None then run m' xs else (fst x, pkt') # run m' xs)"

lemma run_subseq: "subseq (run m xs) xs"
proof (induction xs arbitrary: m)
  case (Cons x xs)
  obtain m' pkt' where p: "process (fst x) m (snd x) = (m', pkt')" by fastforce
  then have "Data pkt' \<noteq> None \<Longrightarrow> pkt' = snd x" by (rule process_passed)
  with p Cons.IH [of m'] show ?case by (auto simp: subseq_Cons2_iff)
qed simp

lemma run_set: "x \<in> set (run m xs) \<Longrightarrow> x \<in> set xs"
  using run_subseq [of m xs] by (auto dest: list_emb_set)

end

section \<open>The loop guard\<close>

definition DefaultLoopGuardWindow :: duration where
  "DefaultLoopGuardWindow = 250 * millisecond"

record loopKey =
  lk_payload :: digest
  lk_groupIP :: "byte list"
  lk_port :: "16 word"
  lk_zone :: string

record LoopGuard =
  window :: duration
  seen :: "loopKey \<rightharpoonup> gotime"
  nextCleanup :: gotime

definition NewLoopGuard :: "duration \<Rightarrow> LoopGuard" where
  "NewLoopGuard w =
     \<lparr>window = (if w \<le> 0 then DefaultLoopGuardWindow else w), seen = Map.empty, nextCleanup = 0\<rparr>"

definition loopKeyForPacket :: "packet \<Rightarrow> loopKey" where
  "loopKeyForPacket pkt =
     (let key = \<lparr>lk_payload = md5_Sum (bytes_of (Data pkt)), lk_groupIP = replicate 16 0,
                 lk_port = 0, lk_zone = ''''\<rparr>
      in case Group pkt of
           None \<Rightarrow> key
         | Some g \<Rightarrow>
             let key = (case To16 (addr_IP g) of None \<Rightarrow> key | Some ip \<Rightarrow> key\<lparr>lk_groupIP := ip\<rparr>);
                 key = (if 0 \<le> addr_Port g \<and> addr_Port g \<le> 65535
                        then key\<lparr>lk_port := word_of_int (addr_Port g)\<rparr> else key)
             in key\<lparr>lk_zone := addr_Zone g\<rparr>)"

text \<open>The sweep over \<^verbatim>\<open>g.seen\<close> that deletes the entries that have expired.\<close>

definition LoopGuard_sweep :: "gotime \<Rightarrow> LoopGuard \<Rightarrow> LoopGuard" where
  "LoopGuard_sweep now g =
     (if IsZero (nextCleanup g) \<or> \<not> Before now (nextCleanup g)
      then g\<lparr>seen := filter_map (\<lambda>candidate candidateExpiry. Before now candidateExpiry) (seen g),
             nextCleanup := now + window g\<rparr>
      else g)"

definition LoopGuard_Process :: "gotime \<Rightarrow> LoopGuard \<Rightarrow> packet \<Rightarrow> LoopGuard \<times> packet" where
  "LoopGuard_Process now g pkt =
     (let key = loopKeyForPacket pkt
      in if (case seen g key of Some expires \<Rightarrow> Before now expires | None \<Rightarrow> False)
         then (g, pkt\<lparr>Data := None\<rparr>)
         else (let g' = LoopGuard_sweep now g
               in (g'\<lparr>seen := (seen g')(key \<mapsto> now + window g')\<rparr>, pkt)))"

definition LoopGuard_Stop :: "LoopGuard \<Rightarrow> LoopGuard" where
  "LoopGuard_Stop g = g"

definition suppressed :: "gotime \<Rightarrow> LoopGuard \<Rightarrow> packet \<Rightarrow> bool" where
  "suppressed now g pkt \<longleftrightarrow> (\<exists>e. seen g (loopKeyForPacket pkt) = Some e \<and> now < e)"

lemma LoopGuard_Process_cases:
  "LoopGuard_Process now g pkt =
     (if suppressed now g pkt then (g, pkt\<lparr>Data := None\<rparr>)
      else ((LoopGuard_sweep now g)\<lparr>seen :=
              (seen (LoopGuard_sweep now g))(loopKeyForPacket pkt \<mapsto> now + window g)\<rparr>, pkt))"
  by (auto simp: LoopGuard_Process_def Let_def suppressed_def LoopGuard_sweep_def go_defs
      split: option.splits)

interpretation guard: middleware LoopGuard_Process LoopGuard_Stop
  by unfold_locales (auto simp: LoopGuard_Process_cases split: if_splits)

lemma window_sweep [simp]: "window (LoopGuard_sweep now g) = window g"
  by (simp add: LoopGuard_sweep_def)

lemma window_Process: "LoopGuard_Process now g pkt = (g', pkt') \<Longrightarrow> window g' = window g"
  by (auto simp: LoopGuard_Process_cases split: if_splits)

text \<open>What the sweep keeps: every entry that has not expired, and no other one.\<close>

lemma seen_sweep_fresh:
  "now < e \<Longrightarrow> seen (LoopGuard_sweep now g) k = Some e \<longleftrightarrow> seen g k = Some e"
  by (simp add: LoopGuard_sweep_def Before_def)

lemma seen_sweep_subset:
  "seen (LoopGuard_sweep now g) k = Some e \<Longrightarrow> seen g k = Some e"
  by (auto simp: LoopGuard_sweep_def split: if_splits)

section \<open>The chain\<close>

text \<open>
  The values of the Go interface type \<^verbatim>\<open>Middleware\<close>: the program implements it by
  \<^verbatim>\<open>*LoopGuard\<close> and by \<^verbatim>\<open>*chain\<close>. A call of the interface method dispatches on the
  constructor.
\<close>

datatype mw = LoopGuardMW LoopGuard | ChainMW "mw list"

definition Chain :: "mw list \<Rightarrow> mw" where
  "Chain middlewares = ChainMW middlewares"

fun mw_Process :: "gotime \<Rightarrow> mw \<Rightarrow> packet \<Rightarrow> mw \<times> packet"
  and chain_Process :: "gotime \<Rightarrow> mw list \<Rightarrow> packet \<Rightarrow> mw list \<times> packet" where
  "mw_Process now (LoopGuardMW g) pkt =
     (case LoopGuard_Process now g pkt of (g', pkt') \<Rightarrow> (LoopGuardMW g', pkt'))"
| "mw_Process now (ChainMW ms) pkt =
     (case chain_Process now ms pkt of (ms', pkt') \<Rightarrow> (ChainMW ms', pkt'))"
| "chain_Process now [] pkt = ([], pkt)"
| "chain_Process now (m # ms) pkt =
     (case mw_Process now m pkt of
        (m', pkt') \<Rightarrow>
          if Data pkt' = None then (m' # ms, pkt')
          else (case chain_Process now ms pkt' of (ms', pkt'') \<Rightarrow> (m' # ms', pkt'')))"

fun mw_Stop :: "mw \<Rightarrow> mw" and chain_Stop :: "mw list \<Rightarrow> mw list" where
  "mw_Stop (LoopGuardMW g) = LoopGuardMW (LoopGuard_Stop g)"
| "mw_Stop (ChainMW ms) = ChainMW (chain_Stop ms)"
| "chain_Stop [] = []"
| "chain_Stop (m # ms) = mw_Stop m # chain_Stop ms"

lemma mw_Process_result:
  "mw_Process now m pkt = (m', pkt') \<Longrightarrow> pkt' = pkt \<or> pkt' = pkt\<lparr>Data := None\<rparr>"
  "chain_Process now ms pkt = (ms', pkt') \<Longrightarrow> pkt' = pkt \<or> pkt' = pkt\<lparr>Data := None\<rparr>"
proof (induction now m pkt and now ms pkt arbitrary: m' pkt' and ms' pkt'
    rule: mw_Process_chain_Process.induct)
  case (1 now g pkt)
  then show ?case using guard.process_result by (auto split: prod.splits)
next
  case (4 now m ms pkt)
  obtain m1 p1 where m1: "mw_Process now m pkt = (m1, p1)" by fastforce
  with 4 show ?case by (fastforce split: prod.splits if_splits)
qed (auto split: prod.splits)

interpretation chain: middleware mw_Process mw_Stop
  by unfold_locales (rule mw_Process_result)

lemma mw_Stop_id [simp]: "mw_Stop m = m" "chain_Stop ms = ms"
  by (induction m and ms rule: mw_Stop_chain_Stop.induct) (auto simp: LoopGuard_Stop_def)

text \<open>The chain the relay builds holds one loop guard and behaves as that guard.\<close>

lemma chain_single_guard:
  "mw_Process now (Chain [LoopGuardMW g]) pkt =
     (case LoopGuard_Process now g pkt of (g', pkt') \<Rightarrow> (Chain [LoopGuardMW g'], pkt'))"
  by (auto simp: Chain_def split: prod.splits)

section \<open>A timed run of the guard\<close>

text \<open>
  \<open>guard_run g xs\<close> lets the packets of \<open>xs\<close> pass the guard at their instants: the state of
  the guard afterwards and the packets that passed.
\<close>

fun guard_run :: "LoopGuard \<Rightarrow> (gotime \<times> packet) list \<Rightarrow> LoopGuard \<times> (gotime \<times> packet) list" where
  "guard_run g [] = (g, [])"
| "guard_run g ((now, pkt) # xs) =
     (case LoopGuard_Process now g pkt of
        (g', pkt') \<Rightarrow>
          (case guard_run g' xs of
             (g'', ys) \<Rightarrow> (g'', if Data pkt' = None then ys else (now, pkt') # ys)))"

lemma guard_run_passed: "snd (guard_run g xs) = guard.run g xs"
  by (induction g xs rule: guard_run.induct) (auto split: prod.splits)

text \<open>
  An unexpired entry blocks its key: while the guard holds \<open>k\<close> with expiry \<open>e\<close>, no packet
  of key \<open>k\<close> passes before \<open>e\<close>.
\<close>

lemma blocked_until:
  assumes "seen g k = Some e"
    and "sorted (map fst xs)" and "(t, p) \<in> set (snd (guard_run g xs))" and "loopKeyForPacket p = k"
  shows "e \<le> t"
  using assms
proof (induction g xs rule: guard_run.induct)
  case (2 g now pkt xs)
  show ?case
  proof (cases "e \<le> now")
    case True
    have "(t, p) \<in> set ((now, pkt) # xs)"
      using "2.prems"(3) unfolding guard_run_passed by (rule guard.run_set)
    with "2.prems"(2) have "now \<le> t" by auto
    with True show ?thesis by simp
  next
    case False
    obtain g' pkt' where p: "LoopGuard_Process now g pkt = (g', pkt')" by fastforce
    have keep: "seen g' k = Some e \<and> (loopKeyForPacket pkt = k \<longrightarrow> Data pkt' = None)"
    proof (cases "suppressed now g pkt")
      case True
      with p "2.prems"(1) show ?thesis by (auto simp: LoopGuard_Process_cases)
    next
      case nsup: False
      with "2.prems"(1) False have "loopKeyForPacket pkt \<noteq> k" by (auto simp: suppressed_def)
      with nsup p "2.prems"(1) False show ?thesis
        by (auto simp: LoopGuard_Process_cases seen_sweep_fresh)
    qed
    have "Data pkt' \<noteq> None \<Longrightarrow> pkt' = pkt" using guard.process_passed [OF p] .
    with "2.prems"(3,4) p keep have mem: "(t, p) \<in> set (snd (guard_run g' xs))"
      by (cases "Data pkt' = None") (simp_all split: prod.splits, blast)
    show ?thesis
      by (rule "2.IH" [OF p [symmetric] _ _ mem "2.prems"(4)]) (use keep "2.prems"(2) in simp_all)
  qed
qed simp

text \<open>
  Two packets with one key that both pass are at least a window apart: the guard lets at
  most one copy through per window, and the window does not slide with the copies it drops.
\<close>

lemma guard_run_spaced:
  assumes "sorted (map fst xs)" and "i < j" and "j < length (snd (guard_run g xs))"
    and "loopKeyForPacket (snd (snd (guard_run g xs) ! i)) = loopKeyForPacket (snd (snd (guard_run g xs) ! j))"
  shows "fst (snd (guard_run g xs) ! i) + window g \<le> fst (snd (guard_run g xs) ! j)"
  using assms
proof (induction g xs arbitrary: i j rule: guard_run.induct)
  case (2 g now pkt xs)
  obtain g' pkt' where p: "LoopGuard_Process now g pkt = (g', pkt')" by fastforce
  obtain g'' ys where r: "guard_run g' xs = (g'', ys)" by fastforce
  have w: "window g' = window g" using window_Process [OF p] .
  note IH = "2.IH" [OF p [symmetric]]
  show ?case
  proof (cases "Data pkt' = None")
    case True
    with "2.prems" p r IH [of i j] w show ?thesis by auto
  next
    case False
    then have pp: "pkt' = pkt" using guard.process_passed [OF p] by simp
    have out: "snd (guard_run g ((now, pkt) # xs)) = (now, pkt) # ys"
      using False p r pp by simp
    have entry: "seen g' (loopKeyForPacket pkt) = Some (now + window g)"
      using p False by (auto simp: LoopGuard_Process_cases split: if_splits)
    show ?thesis
    proof (cases i)
      case 0
      with "2.prems"(2,3) out obtain j' where j': "j = Suc j'" "j' < length ys"
        by (cases j) auto
      have "(fst (ys ! j'), snd (ys ! j')) \<in> set (snd (guard_run g' xs))"
        using r j' by simp
      moreover have "loopKeyForPacket (snd (ys ! j')) = loopKeyForPacket pkt"
        using "2.prems"(4) out j' 0 by simp
      ultimately have "now + window g \<le> fst (ys ! j')"
        using blocked_until [OF entry] "2.prems"(1) by (metis list.simps(9) sorted_simps(2))
      with 0 j' out show ?thesis by simp
    next
      case (Suc i')
      with "2.prems" out r w IH [of i' "j - 1"] show ?thesis by (cases j) auto
    qed
  qed
qed simp

section \<open>The memory of the guard\<close>

text \<open>
  \<open>guard_inv now g\<close>, for a guard last called at \<open>now\<close>: an entry that was there at the last
  sweep (at \<open>nextCleanup - window\<close>) had not expired then, and no entry or sweep lies more
  than a window ahead.
\<close>

definition guard_inv :: "gotime \<Rightarrow> LoopGuard \<Rightarrow> bool" where
  "guard_inv now g \<longleftrightarrow>
     0 < window g \<and> finite (dom (seen g)) \<and> nextCleanup g \<le> now + window g
     \<and> (\<forall>k e. seen g k = Some e \<longrightarrow> nextCleanup g - window g < e \<and> e \<le> now + window g)"

lemma guard_invD:
  assumes "guard_inv now g"
  shows "0 < window g" and "finite (dom (seen g))" and "nextCleanup g \<le> now + window g"
    and "seen g k = Some e \<Longrightarrow> nextCleanup g - window g < e \<and> e \<le> now + window g"
  using assms unfolding guard_inv_def by blast+

lemma guard_inv_New: "0 \<le> now \<Longrightarrow> guard_inv now (NewLoopGuard w)"
  by (auto simp: guard_inv_def NewLoopGuard_def DefaultLoopGuardWindow_def millisecond_def)

lemma guard_inv_mono: "guard_inv t g \<Longrightarrow> t \<le> now \<Longrightarrow> guard_inv now g"
  unfolding guard_inv_def by fastforce

lemma sweep_entries:
  assumes "guard_inv now g" and "seen (LoopGuard_sweep now g) k = Some e"
  shows "now - window g < e" and "nextCleanup (LoopGuard_sweep now g) - window g < e"
    and "e \<le> now + window g"
  using assms(2) guard_invD(1,4) [OF assms(1)]
  by (auto simp: LoopGuard_sweep_def go_defs split: if_splits) force+

lemma guard_inv_Process:
  assumes inv: "guard_inv t g" and "t \<le> now" and p: "LoopGuard_Process now g pkt = (g', pkt')"
  shows "guard_inv now g'"
proof (cases "suppressed now g pkt")
  case True
  with p guard_inv_mono [OF inv assms(2)] show ?thesis by (auto simp: LoopGuard_Process_cases)
next
  case False
  have inv': "guard_inv now g" using inv assms(2) by (rule guard_inv_mono)
  let ?s = "LoopGuard_sweep now g"
  have g': "g' = ?s\<lparr>seen := (seen ?s)(loopKeyForPacket pkt \<mapsto> now + window g)\<rparr>"
    using p False by (auto simp: LoopGuard_Process_cases)
  have next': "nextCleanup ?s \<le> now + window g"
    using guard_invD(3) [OF inv'] by (simp add: LoopGuard_sweep_def)
  have fin: "finite (dom (seen ?s))"
    using guard_invD(2) [OF inv'] by (simp add: LoopGuard_sweep_def finite_dom_filter_map)
  show ?thesis
    using sweep_entries [OF inv'] next' fin guard_invD(1) [OF inv']
    by (auto simp: guard_inv_def g')
qed

text \<open>
  After a packet has passed, the guard remembers only packets that passed within the last
  two windows: an entry expires one window after its packet passed.
\<close>

lemma guard_memory:
  assumes inv: "guard_inv t g" and "t \<le> now" and p: "LoopGuard_Process now g pkt = (g', pkt')"
    and passed: "Data pkt' \<noteq> None" and k: "seen g' k = Some e"
  shows "now - window g < e" and "e \<le> now + window g"
proof -
  have inv': "guard_inv now g" using inv assms(2) by (rule guard_inv_mono)
  from p passed have "\<not> suppressed now g pkt" by (auto simp: LoopGuard_Process_cases)
  with p k have "k = loopKeyForPacket pkt \<and> e = now + window g \<or> seen (LoopGuard_sweep now g) k = Some e"
    by (auto simp: LoopGuard_Process_cases split: if_splits)
  then show "now - window g < e" and "e \<le> now + window g"
    using sweep_entries [OF inv'] guard_invD(1) [OF inv'] by auto
qed

text \<open>
  A packet that is not suppressed passes unchanged, so the first copy of a payload is never
  lost to the guard.
\<close>

lemma Process_passes_iff:
  assumes "LoopGuard_Process now g pkt = (g', pkt')" and "Data pkt \<noteq> None"
  shows "Data pkt' \<noteq> None \<longleftrightarrow> \<not> suppressed now g pkt"
  using assms by (auto simp: LoopGuard_Process_cases split: if_splits)

end
