(* ===== verification/Relay.thy ===== *)
theory Relay
  imports SocketIO Middleware "HOL-Library.List_Lexorder" "HOL-Library.Char_ord"
begin

text \<open>
  \<^verbatim>\<open>internal/relay/relay.go\<close>, the operations: namespace instances (built with rollback,
  torn down), against an environment of the calls into \<^verbatim>\<open>internal/netns\<close> and
  \<^verbatim>\<open>internal/socket\<close>, which \<open>os_env\<close> makes of the models of these packages. The lemmas show
  that every configured group finds its socket in an instance and that building rolls back.
  The state of the relay and the operations on it are in \<open>Coordinator\<close>, the goroutines in
  \<open>RelaySteps\<close>.
\<close>

section \<open>Group keys\<close>

definition ChannelBuffer :: nat where
  "ChannelBuffer = 1000"

definition DebounceWindow :: duration where
  "DebounceWindow = 300 * millisecond"

record groupAddrKey =
  gk_ip :: "byte list"
  gk_port :: int
  gk_zone :: string
  gk_hasAddr :: bool

definition groupKeyFromUDPAddr :: "udp_addr option \<Rightarrow> groupAddrKey" where
  "groupKeyFromUDPAddr addr =
     (let key = \<lparr>gk_ip = replicate 16 0, gk_port = 0, gk_zone = '''', gk_hasAddr = False\<rparr>
      in case addr of
           None \<Rightarrow> key
         | Some a \<Rightarrow>
             let key = key\<lparr>gk_hasAddr := True, gk_port := addr_Port a, gk_zone := addr_Zone a\<rparr>
             in (case To16 (addr_IP a) of None \<Rightarrow> key | Some ip \<Rightarrow> key\<lparr>gk_ip := ip\<rparr>))"

lemma groupKey_eq_iff:
  assumes "To16 (addr_IP a) = Some u" and "To16 (addr_IP b) = Some v"
  shows "groupKeyFromUDPAddr (Some a) = groupKeyFromUDPAddr (Some b) \<longleftrightarrow>
         IP_Equal (addr_IP a) (addr_IP b) \<and> addr_Port a = addr_Port b \<and> addr_Zone a = addr_Zone b"
  using assms IP_Equal_iff_To16 [OF assms] by (auto simp: groupKeyFromUDPAddr_def Let_def)

section \<open>Instances\<close>

text \<open>
  \<open>ni_socketsByGroup\<close> maps a key to the position of its socket in \<open>ni_sockets\<close> (the Go map
  holds the same pointers as the slice). \<open>ni_done\<close>: \<^verbatim>\<open>cancelFn\<close> has been called.
  \<open>ni_joined\<close>: \<^verbatim>\<open>wg.Wait()\<close> has returned, no goroutine of the instance runs any more.
  \<open>ni_holding k\<close> is the packet the receiver of socket \<open>k\<close> has read and not yet handed to
  the broadcast channel.
\<close>

record nsInstance =
  ni_path :: string
  ni_handle :: NSHandle
  ni_sockets :: "MulticastSocket list"
  ni_socketsByGroup :: "groupAddrKey \<rightharpoonup> nat"
  ni_sendCh :: "packet list"
  ni_holding :: "nat \<rightharpoonup> packet"
  ni_done :: bool
  ni_joined :: bool

text \<open>The calls into the other packages, on their state \<open>'w\<close>.\<close>

record 'w relay_env =
  env_Open :: "string \<Rightarrow> 'w \<Rightarrow> NSHandle result \<times> 'w"
  env_NewSocket :: "udp_addr \<Rightarrow> NSHandle \<Rightarrow> 'w \<Rightarrow> MulticastSocket result \<times> 'w"
  env_SockClose :: "MulticastSocket \<Rightarrow> 'w \<Rightarrow> goerr option \<times> 'w"
  env_HandleClose :: "NSHandle \<Rightarrow> 'w \<Rightarrow> goerr option \<times> 'w"
  env_WriteToGroup :: "MulticastSocket \<Rightarrow> byte list \<Rightarrow> udp_addr option \<Rightarrow> int \<Rightarrow> 'w
     \<Rightarrow> ((nat \<times> goerr option) \<times> MulticastSocket \<times> 'w) option"

text \<open>The environment made of the packages of this repository on a kernel.\<close>

definition on_kernel :: "('k \<Rightarrow> 'r \<times> 'k) \<Rightarrow> 'k os_thread \<Rightarrow> 'r \<times> 'k os_thread" where
  "on_kernel f t = (case f (kernel t) of (r, k) \<Rightarrow> (r, t\<lparr>kernel := k\<rparr>))"

definition os_env :: "'k netns_api \<Rightarrow> 'k sock_api \<Rightarrow> 'k os_thread relay_env" where
  "os_env nsapi api =
     \<lparr>env_Open = (\<lambda>path. on_kernel (Open nsapi path)),
      env_NewSocket = NewMulticastSocket nsapi api,
      env_SockClose = (\<lambda>s. on_kernel (sock_Close api s)),
      env_HandleClose = (\<lambda>h. on_kernel (Close nsapi h)),
      env_WriteToGroup = (\<lambda>s data source ttl t.
        map_option (\<lambda>(r, s', k). (r, s', t\<lparr>kernel := k\<rparr>)) (WriteToGroup api s data source ttl (kernel t)))\<rparr>"

fun close_sockets :: "'w relay_env \<Rightarrow> MulticastSocket list \<Rightarrow> 'w \<Rightarrow> 'w" where
  "close_sockets env [] w = w"
| "close_sockets env (s # ss) w = close_sockets env ss (snd (env_SockClose env s w))"

text \<open>
  The loop over \<^verbatim>\<open>r.groups\<close> with the sockets and the map built so far; a failure closes
  the sockets and the handle before it returns.
\<close>

fun build_sockets ::
  "'w relay_env \<Rightarrow> NSHandle \<Rightarrow> udp_addr list \<Rightarrow> MulticastSocket list \<Rightarrow> (groupAddrKey \<rightharpoonup> nat) \<Rightarrow> 'w
   \<Rightarrow> (MulticastSocket list \<times> (groupAddrKey \<rightharpoonup> nat)) result \<times> 'w" where
  "build_sockets env handle [] sockets byGroup w = (Inr (sockets, byGroup), w)"
| "build_sockets env handle (grp # grps) sockets byGroup w =
     (case env_NewSocket env grp handle w of
        (Inl err, w1) \<Rightarrow>
          (Inl (Wrapf (''failed to create socket for '' @ udp_String grp @ '': '') err ''''),
           snd (env_HandleClose env handle (close_sockets env sockets w1)))
      | (Inr sock, w1) \<Rightarrow>
          build_sockets env handle grps (sockets @ [sock])
            (byGroup(groupKeyFromUDPAddr (Some (sock_Group sock)) \<mapsto> length sockets)) w1)"

definition buildInstance ::
  "'w relay_env \<Rightarrow> udp_addr list \<Rightarrow> string \<Rightarrow> 'w \<Rightarrow> nsInstance result \<times> 'w" where
  "buildInstance env groups path w =
     (case env_Open env path w of
        (Inl err, w1) \<Rightarrow> (Inl (Wrapf ''failed to open namespace: '' err ''''), w1)
      | (Inr handle, w1) \<Rightarrow>
          (case build_sockets env handle groups [] Map.empty w1 of
             (Inl err, w2) \<Rightarrow> (Inl err, w2)
           | (Inr (sockets, byGroup), w2) \<Rightarrow>
               (Inr \<lparr>ni_path = path, ni_handle = handle, ni_sockets = sockets,
                     ni_socketsByGroup = byGroup, ni_sendCh = [], ni_holding = Map.empty,
                     ni_done = False, ni_joined = False\<rparr>, w2)))"

lemma buildInstance_Inr:
  assumes "buildInstance env groups path w = (Inr inst, w')"
  shows "ni_path inst = path" and "ni_sendCh inst = []" and "ni_holding inst = Map.empty"
    and "\<not> ni_done inst" and "\<not> ni_joined inst"
  using assms by (auto simp: buildInstance_def split: prod.splits sum.splits)

text \<open>
  \<^verbatim>\<open>teardown\<close> in its three stages: \<^verbatim>\<open>cancelFn()\<close>, closing the sockets, and the wait for the
  goroutines followed by closing the handle.
\<close>

definition cancel_inst :: "nsInstance \<Rightarrow> nsInstance" where
  "cancel_inst inst = inst\<lparr>ni_done := True\<rparr>"

definition join_inst :: "'w relay_env \<Rightarrow> nsInstance \<Rightarrow> 'w \<Rightarrow> nsInstance \<times> 'w" where
  "join_inst env inst w = (inst\<lparr>ni_joined := True\<rparr>, snd (env_HandleClose env (ni_handle inst) w))"

definition teardown :: "'w relay_env \<Rightarrow> nsInstance \<Rightarrow> 'w \<Rightarrow> nsInstance \<times> 'w" where
  "teardown env inst w =
     (let inst1 = cancel_inst inst; w1 = close_sockets env (ni_sockets inst1) w
      in join_inst env inst1 w1)"

subsection \<open>Every group finds its socket\<close>

definition keeps_group :: "'w relay_env \<Rightarrow> bool" where
  "keeps_group env \<longleftrightarrow>
     (\<forall>grp handle w sock w'. env_NewSocket env grp handle w = (Inr sock, w') \<longrightarrow> sock_Group sock = grp)"

lemma keeps_group_os_env: "keeps_group (os_env nsapi api)"
  by (auto simp: keeps_group_def os_env_def NewMulticastSocket_def sock_Group_def
      split: prod.splits option.splits)

definition indexed_by_group :: "udp_addr list \<Rightarrow> MulticastSocket list \<Rightarrow> (groupAddrKey \<rightharpoonup> nat) \<Rightarrow> bool" where
  "indexed_by_group groups sockets byGroup \<longleftrightarrow>
     map sock_Group sockets = groups
     \<and> dom byGroup = (\<lambda>g. groupKeyFromUDPAddr (Some g)) ` set groups
     \<and> (\<forall>k i. byGroup k = Some i \<longrightarrow>
          i < length sockets \<and> groupKeyFromUDPAddr (Some (sock_Group (sockets ! i))) = k)"

lemma indexed_by_group_snoc:
  assumes "indexed_by_group groups sockets byGroup"
  shows "indexed_by_group (groups @ [sock_Group sock]) (sockets @ [sock])
     (byGroup(groupKeyFromUDPAddr (Some (sock_Group sock)) \<mapsto> length sockets))"
proof -
  have "i < length (sockets @ [sock])
      \<and> groupKeyFromUDPAddr (Some (sock_Group ((sockets @ [sock]) ! i))) = k"
    if "byGroup k = Some i" for k i
    using assms that by (metis indexed_by_group_def less_SucI length_append_singleton nth_append)
  with assms show ?thesis by (auto simp: indexed_by_group_def)
qed

lemma build_sockets_indexed:
  assumes "keeps_group env"
  shows "build_sockets env handle grps sockets byGroup w = (Inr (sockets', byGroup'), w') \<Longrightarrow>
    indexed_by_group done sockets byGroup \<Longrightarrow> indexed_by_group (done @ grps) sockets' byGroup'"
proof (induction grps arbitrary: "done" sockets byGroup w)
  case (Cons g gs)
  obtain r w1 where r: "env_NewSocket env g handle w = (r, w1)" by fastforce
  show ?case
  proof (cases r)
    case (Inr sock)
    then have g: "sock_Group sock = g" using assms r unfolding keeps_group_def by blast
    have ix: "indexed_by_group (done @ [g]) (sockets @ [sock])
        (byGroup(groupKeyFromUDPAddr (Some (sock_Group sock)) \<mapsto> length sockets))"
      using indexed_by_group_snoc [OF Cons.prems(2), of sock] g by simp
    have "build_sockets env handle gs (sockets @ [sock])
        (byGroup(groupKeyFromUDPAddr (Some (sock_Group sock)) \<mapsto> length sockets)) w1
        = (Inr (sockets', byGroup'), w')"
      using Cons.prems(1) r Inr by simp
    from Cons.IH [OF this ix] show ?thesis by simp
  qed (use Cons.prems r in auto)
qed simp

lemma buildInstance_indexed:
  assumes "keeps_group env" and "buildInstance env groups path w = (Inr inst, w')"
  shows "indexed_by_group groups (ni_sockets inst) (ni_socketsByGroup inst)"
proof -
  from assms(2) obtain handle w1 where
    "build_sockets env handle groups [] Map.empty w1 = (Inr (ni_sockets inst, ni_socketsByGroup inst), w')"
    by (auto simp: buildInstance_def split: prod.splits sum.splits)
  moreover have "indexed_by_group [] [] Map.empty" by (simp add: indexed_by_group_def)
  ultimately have "indexed_by_group ([] @ groups) (ni_sockets inst) (ni_socketsByGroup inst)"
    by (rule build_sockets_indexed [OF assms(1)])
  then show ?thesis by simp
qed

subsection \<open>Rollback\<close>

text \<open>
  \<open>opn w\<close> is the set of descriptors that are open. A call is balanced when it opens the
  descriptors of what it returns, and closing releases those; \<^verbatim>\<open>NewMulticastSocket\<close> may leave
  up to \<open>leak\<close> descriptors open when it fails.
\<close>

definition left_open :: "nat \<Rightarrow> nat set \<Rightarrow> nat set \<Rightarrow> bool" where
  "left_open leak S S' \<longleftrightarrow> S \<subseteq> S' \<and> finite (S' - S) \<and> card (S' - S) \<le> leak"

lemma left_open_0: "left_open 0 S S' \<longleftrightarrow> S' = S"
  by (auto simp: left_open_def)

lemma left_open_diff: "left_open leak S S' \<Longrightarrow> T \<subseteq> S \<Longrightarrow> left_open leak (S - T) (S' - T)"
proof -
  assume a: "left_open leak S S'" "T \<subseteq> S"
  then have "(S' - T) - (S - T) = S' - S" by blast
  with a show ?thesis unfolding left_open_def by auto
qed

definition sock_fds :: "MulticastSocket \<Rightarrow> nat set" where
  "sock_fds s = insert (sock_conn s) (set_option (sock_rawConn s))"

definition balanced_env :: "'w relay_env \<Rightarrow> ('w \<Rightarrow> nat set) \<Rightarrow> nat \<Rightarrow> bool" where
  "balanced_env env opn leak \<longleftrightarrow>
     (\<forall>p w h w'. env_Open env p w = (Inr h, w') \<longrightarrow> ns_handle h \<notin> opn w \<and> opn w' = insert (ns_handle h) (opn w))
     \<and> (\<forall>p w e w'. env_Open env p w = (Inl e, w') \<longrightarrow> opn w' = opn w)
     \<and> (\<forall>g h w s w'. env_NewSocket env g h w = (Inr s, w') \<longrightarrow> sock_fds s \<inter> opn w = {} \<and> opn w' = sock_fds s \<union> opn w)
     \<and> (\<forall>g h w e w'. env_NewSocket env g h w = (Inl e, w') \<longrightarrow> left_open leak (opn w) (opn w'))
     \<and> (\<forall>s w. opn (snd (env_SockClose env s w)) = opn w - sock_fds s)
     \<and> (\<forall>h w. opn (snd (env_HandleClose env h w)) = opn w - {ns_handle h})"

lemma balanced_envD:
  assumes "balanced_env env opn leak"
  shows "env_Open env p w = (Inr h, w') \<Longrightarrow> ns_handle h \<notin> opn w \<and> opn w' = insert (ns_handle h) (opn w)"
    and "env_Open env p w = (Inl e, w') \<Longrightarrow> opn w' = opn w"
    and "env_NewSocket env g h w = (Inr s, w') \<Longrightarrow> sock_fds s \<inter> opn w = {} \<and> opn w' = sock_fds s \<union> opn w"
    and "env_NewSocket env g h w = (Inl e, w') \<Longrightarrow> left_open leak (opn w) (opn w')"
    and "opn (snd (env_SockClose env s w)) = opn w - sock_fds s"
    and "opn (snd (env_HandleClose env h w)) = opn w - {ns_handle h}"
  using assms unfolding balanced_env_def by metis+

lemma close_sockets_opn:
  assumes "balanced_env env opn leak"
  shows "opn (close_sockets env ss w) = opn w - \<Union> (sock_fds ` set ss)"
  by (induction ss arbitrary: w) (auto simp: balanced_envD(5) [OF assms])

text \<open>
  A failing loop leaves what was open before it without its own sockets and the handle, and
  what the failing constructor left; a loop that ends has opened what its sockets hold.
\<close>

lemma build_sockets_opn:
  assumes bal: "balanced_env env opn leak"
  shows "build_sockets env handle grps sockets byGroup w = (r, w') \<Longrightarrow>
    insert (ns_handle handle) (\<Union> (sock_fds ` set sockets)) \<subseteq> opn w \<Longrightarrow>
    (\<forall>e. r = Inl e \<longrightarrow> left_open leak (opn w - insert (ns_handle handle) (\<Union> (sock_fds ` set sockets))) (opn w'))
    \<and> (\<forall>ss m. r = Inr (ss, m) \<longrightarrow> (\<exists>new. ss = sockets @ new \<and> opn w' = opn w \<union> \<Union> (sock_fds ` set new)
         \<and> \<Union> (sock_fds ` set new) \<inter> opn w = {}))"
proof (induction grps arbitrary: sockets byGroup w)
  case (Cons g gs)
  let ?own = "insert (ns_handle handle) (\<Union> (sock_fds ` set sockets))"
  obtain n w1 where n: "env_NewSocket env g handle w = (n, w1)" by fastforce
  show ?case
  proof (cases n)
    case (Inl e)
    with n balanced_envD(4) [OF bal] have "left_open leak (opn w) (opn w1)" by blast
    from left_open_diff [OF this Cons.prems(2)] have left: "left_open leak (opn w - ?own) (opn w1 - ?own)" .
    from Cons.prems(1) n Inl have
      "r = Inl (Wrapf (''failed to create socket for '' @ udp_String g @ '': '') e '''')"
      "w' = snd (env_HandleClose env handle (close_sockets env sockets w1))" by simp_all
    moreover have "opn (snd (env_HandleClose env handle (close_sockets env sockets w1))) = opn w1 - ?own"
      unfolding balanced_envD(6) [OF bal] close_sockets_opn [OF bal] by blast
    ultimately show ?thesis using left by simp
  next
    case (Inr s)
    with n balanced_envD(3) [OF bal, of g handle w s w1]
    have s: "sock_fds s \<inter> opn w = {}" "opn w1 = sock_fds s \<union> opn w" by auto
    from Cons.prems(1) n Inr have rec: "build_sockets env handle gs (sockets @ [s])
        (byGroup(groupKeyFromUDPAddr (Some (sock_Group s)) \<mapsto> length sockets)) w1 = (r, w')" by simp
    have own: "insert (ns_handle handle) (\<Union> (sock_fds ` set (sockets @ [s]))) = sock_fds s \<union> ?own" by auto
    have sub: "sock_fds s \<union> ?own \<subseteq> opn w1" using Cons.prems(2) s(2) by blast
    note IH = Cons.IH [OF rec, unfolded own, OF sub]
    have rest: "opn w1 - (sock_fds s \<union> ?own) = opn w - ?own" unfolding s(2) using s(1) by blast
    show ?thesis
    proof (intro conjI allI impI)
      fix e assume "r = Inl e"
      with IH rest show "left_open leak (opn w - ?own) (opn w')" by simp
    next
      fix ss m assume ret: "r = Inr (ss, m)"
      from IH [THEN conjunct2, rule_format, OF ret] obtain new where new: "ss = (sockets @ [s]) @ new" "opn w' = opn w1 \<union> \<Union> (sock_fds ` set new)"
        "\<Union> (sock_fds ` set new) \<inter> opn w1 = {}" by (elim exE conjE)
      have "ss = sockets @ (s # new)" using new(1) by simp
      moreover have "opn w' = opn w \<union> \<Union> (sock_fds ` set (s # new))" using new(2) s(2) by auto
      moreover have "\<Union> (sock_fds ` set (s # new)) \<inter> opn w = {}" using new(3) s by auto
      ultimately show "\<exists>new. ss = sockets @ new \<and> opn w' = opn w \<union> \<Union> (sock_fds ` set new)
         \<and> \<Union> (sock_fds ` set new) \<inter> opn w = {}" by blast
    qed
  qed
qed auto

text \<open>The descriptors an instance holds.\<close>

definition inst_fds :: "nsInstance \<Rightarrow> nat set" where
  "inst_fds inst = insert (ns_handle (ni_handle inst)) (\<Union> (sock_fds ` set (ni_sockets inst)))"

lemma buildInstance_opn:
  assumes bal: "balanced_env env opn leak" and run: "buildInstance env groups path w = (r, w')"
  shows "r = Inl e \<Longrightarrow> left_open leak (opn w) (opn w')"
    and "r = Inr inst \<Longrightarrow> opn w' = opn w \<union> inst_fds inst \<and> inst_fds inst \<inter> opn w = {}"
proof -
  obtain o1 w1 where o: "env_Open env path w = (o1, w1)" by fastforce
  have both: "(\<forall>e. r = Inl e \<longrightarrow> left_open leak (opn w) (opn w'))
    \<and> (\<forall>inst. r = Inr inst \<longrightarrow> opn w' = opn w \<union> inst_fds inst \<and> inst_fds inst \<inter> opn w = {})"
  proof (cases o1)
    case (Inl e)
    with run o balanced_envD(2) [OF bal, of path w e w1] show ?thesis by (auto simp: buildInstance_def left_open_def)
  next
    case (Inr h)
    with o balanced_envD(1) [OF bal, of path w h w1]
    have h: "ns_handle h \<notin> opn w" "opn w1 = insert (ns_handle h) (opn w)" by auto
    obtain b w2 where b: "build_sockets env h groups [] Map.empty w1 = (b, w2)" by fastforce
    have sub: "insert (ns_handle h) (\<Union> (sock_fds ` set [])) \<subseteq> opn w1" using h by simp
    note bs = build_sockets_opn [OF bal b sub]
    have undo: "opn w1 - insert (ns_handle h) (\<Union> (sock_fds ` set [])) = opn w" using h by auto
    show ?thesis
    proof (cases b)
      case (Inl e)
      with run o b bs undo \<open>o1 = Inr h\<close> show ?thesis by (auto simp: buildInstance_def)
    next
      case (Inr sm)
      then obtain ss m where sm: "b = Inr (ss, m)" by (cases sm) auto
      with bs have "opn w2 = opn w1 \<union> \<Union> (sock_fds ` set ss)" "\<Union> (sock_fds ` set ss) \<inter> opn w1 = {}" by auto
      then have "opn w2 = opn w \<union> insert (ns_handle h) (\<Union> (sock_fds ` set ss))"
        "insert (ns_handle h) (\<Union> (sock_fds ` set ss)) \<inter> opn w = {}" using h by auto
      moreover from run o b sm \<open>o1 = Inr h\<close> have "w' = w2" "\<And>i. r = Inr i \<Longrightarrow>
          inst_fds i = insert (ns_handle h) (\<Union> (sock_fds ` set ss))" "\<And>e. r \<noteq> Inl e"
        by (auto simp: buildInstance_def inst_fds_def)
      ultimately show ?thesis by simp
    qed
  qed
  then show "r = Inl e \<Longrightarrow> left_open leak (opn w) (opn w')"
    and "r = Inr inst \<Longrightarrow> opn w' = opn w \<union> inst_fds inst \<and> inst_fds inst \<inter> opn w = {}" by blast+
qed

lemma teardown_opn:
  assumes bal: "balanced_env env opn leak" and "teardown env inst w = (inst', w')"
  shows "opn w' = opn w - inst_fds inst"
  using assms(2)
  by (auto simp: teardown_def join_inst_def cancel_inst_def inst_fds_def Let_def
      balanced_envD(6) [OF bal] close_sockets_opn [OF bal])

end
