(* ===== verification/NamespaceController.thy ===== *)
theory NamespaceController
  imports Prelude "HOL-Library.List_Lexorder" "HOL-Library.Char_ord"
begin

text \<open>
  The interface \<^verbatim>\<open>NamespaceController\<close> of \<^verbatim>\<open>internal/control/server.go\<close>, which the relay
  provides and the control API calls. A value of the Go interface is a record of its three
  methods; the locale is the contract between the two: a call that reports success has
  recorded its intent, one that reports an error has recorded it or nothing, and none of
  them applies an intent at once.
\<close>

datatype nsCmdType = nsCmdAdd | nsCmdRemove

type_synonym intent = "nsCmdType \<times> string"

text \<open>
  How the two selects of \<^verbatim>\<open>AddNamespace\<close> and \<^verbatim>\<open>RemoveNamespace\<close> can go: the coordinator
  takes the command and its answer is read; the context ends before the command is taken;
  it ends after that. The result channel has room for the answer, so the coordinator never
  waits for the caller.
\<close>

datatype delivery = Delivered | CtxBeforeSend goerr | CtxAfterSend goerr

record 's controller =
  ctl_Add :: "delivery \<Rightarrow> string \<Rightarrow> 's \<Rightarrow> goerr option \<times> 's"
  ctl_Remove :: "delivery \<Rightarrow> string \<Rightarrow> 's \<Rightarrow> goerr option \<times> 's"
  ctl_Active :: "'s \<Rightarrow> string list"

text \<open>\<open>recorded s\<close> are the intents the provider has accepted and not yet applied.\<close>

locale namespace_controller =
  fixes ctl :: "'s controller"
    and recorded :: "'s \<Rightarrow> intent list"
  assumes add_ok: "ctl_Add ctl d p s = (None, s') \<Longrightarrow> recorded s' = recorded s @ [(nsCmdAdd, p)]"
    and add_failed: "ctl_Add ctl d p s = (Some e, s') \<Longrightarrow>
          recorded s' = recorded s \<or> recorded s' = recorded s @ [(nsCmdAdd, p)]"
    and remove_ok: "ctl_Remove ctl d p s = (None, s') \<Longrightarrow> recorded s' = recorded s @ [(nsCmdRemove, p)]"
    and remove_failed: "ctl_Remove ctl d p s = (Some e, s') \<Longrightarrow>
          recorded s' = recorded s \<or> recorded s' = recorded s @ [(nsCmdRemove, p)]"
    and delivered: "fst (ctl_Add ctl Delivered p s) = None" "fst (ctl_Remove ctl Delivered p s) = None"
    and active_add: "ctl_Active ctl (snd (ctl_Add ctl d p s)) = ctl_Active ctl s"
    and active_remove: "ctl_Active ctl (snd (ctl_Remove ctl d p s)) = ctl_Active ctl s"
    and active_sorted: "sorted (ctl_Active ctl s)"
begin

lemma add_prefix: "ctl_Add ctl d p s = (r, s') \<Longrightarrow> prefix (recorded s) (recorded s')"
  by (cases r) (auto dest: add_ok add_failed)

lemma remove_prefix: "ctl_Remove ctl d p s = (r, s') \<Longrightarrow> prefix (recorded s) (recorded s')"
  by (cases r) (auto dest: remove_ok remove_failed)

end

end
