(* ===== verification/Coordinator.thy ===== *)
theory Coordinator
  imports Relay NamespaceController
begin

text \<open>
  \<^verbatim>\<open>internal/relay/relay.go\<close>, the state of a running relay and the operations on it: the
  coordinator's handling of an intent and of the debounce timer, the reconcile pass, the
  fan-out of one packet to one destination, and the two goroutines of an instance.
  Instances live on a heap indexed by numbers, because the snapshot, the coordinator's next
  map and the goroutines share them by pointer. The lemmas of this theory are about one call each: what a burst of intents leaves pending,
  what a reconcile pass does to the set of active namespaces, which destinations a packet
  reaches.
\<close>

section \<open>State\<close>

text \<open>
  Where the coordinator is: in its \<^verbatim>\<open>select\<close>; in \<^verbatim>\<open>reconcile\<close>, with the paths of
  \<^verbatim>\<open>pendingDel\<close> and \<^verbatim>\<open>pendingAdd\<close> it has not visited yet and the map \<^verbatim>\<open>next\<close>; after
  \<^verbatim>\<open>ctx.Done()\<close>, with the instances it has not torn down yet (none: it has returned); in
  \<^verbatim>\<open>teardown\<close> of an instance, after \<^verbatim>\<open>cancelFn()\<close> or after the sockets are closed, with
  the place it continues at.
\<close>

datatype coord_pc =
    CSelect
  | CReconcile "string list" "string list" "string \<rightharpoonup> nat"
  | CStopping "nat list"
  | CCancelled nat coord_pc
  | CClosed nat coord_pc

text \<open>
  Where the broadcast goroutine is: in its \<^verbatim>\<open>select\<close>; in the loop over the snapshot it has
  loaded, with the entries it has not visited; returned.
\<close>

datatype bcast_pc = BSelect | BFan packet "(string \<times> nat) list" | BStopped

text \<open>
  The fields \<open>h_...\<close> are history variables: the intents accepted since the last reconcile
  pass and the packets the middleware has processed, with their instants; the packets
  handed to the fan-out loop; the packets the receivers built; the packets written per
  destination. No operation reads them.
\<close>

record 'w relay =
  r_groups :: "udp_addr list"
  r_middleware :: mw
  r_snap :: "string \<rightharpoonup> nat"
  r_broadcastCh :: "packet list"
  r_droppedEnqueue :: "64 word"
  c_pc :: coord_pc
  c_timer :: "gotime option"
  c_pendingAdd :: "string set"
  c_pendingDel :: "string set"
  b_pc :: bcast_pc
  r_heap :: "nat \<rightharpoonup> nsInstance"
  r_fresh :: nat
  r_ctxDone :: bool
  r_now :: gotime
  r_world :: 'w
  h_intents :: "(gotime \<times> nsCmdType \<times> string) list"
  h_processed :: "(gotime \<times> packet) list"
  h_fanout :: "(gotime \<times> packet) list"
  h_received :: "packet set"
  h_written :: "(string \<times> packet) set"

definition relay_New :: "udp_addr list \<Rightarrow> gotime \<Rightarrow> 'w \<Rightarrow> 'w relay" where
  "relay_New groups now w =
     \<lparr>r_groups = groups,
      r_middleware = Chain [LoopGuardMW (NewLoopGuard DefaultLoopGuardWindow)],
      r_snap = Map.empty, r_broadcastCh = [], r_droppedEnqueue = 0,
      c_pc = CSelect, c_timer = None, c_pendingAdd = {}, c_pendingDel = {},
      b_pc = BSelect, r_heap = Map.empty, r_fresh = 0, r_ctxDone = False, r_now = now, r_world = w,
      h_intents = [], h_processed = [], h_fanout = [], h_received = {}, h_written = {}\<rparr>"

section \<open>Intents\<close>

definition coord_accept :: "nsCmdType \<Rightarrow> string \<Rightarrow> 'w relay \<Rightarrow> 'w relay" where
  "coord_accept op path r =
     (let r = (case op of
                 nsCmdAdd \<Rightarrow> r\<lparr>c_pendingAdd := insert path (c_pendingAdd r),
                              c_pendingDel := c_pendingDel r - {path}\<rparr>
               | nsCmdRemove \<Rightarrow> r\<lparr>c_pendingDel := insert path (c_pendingDel r),
                                 c_pendingAdd := c_pendingAdd r - {path}\<rparr>)
      in r\<lparr>c_timer := Some (r_now r + DebounceWindow),
           h_intents := h_intents r @ [(r_now r, op, path)]\<rparr>)"

definition submit :: "nsCmdType \<Rightarrow> delivery \<Rightarrow> string \<Rightarrow> 'w relay \<Rightarrow> goerr option \<times> 'w relay" where
  "submit op d path r =
     (case d of
        Delivered \<Rightarrow> (None, coord_accept op path r)
      | CtxBeforeSend err \<Rightarrow> (Some err, r)
      | CtxAfterSend err \<Rightarrow> (Some err, coord_accept op path r))"

definition AddNamespace :: "delivery \<Rightarrow> string \<Rightarrow> 'w relay \<Rightarrow> goerr option \<times> 'w relay" where
  "AddNamespace d path r = submit nsCmdAdd d path r"

definition RemoveNamespace :: "delivery \<Rightarrow> string \<Rightarrow> 'w relay \<Rightarrow> goerr option \<times> 'w relay" where
  "RemoveNamespace d path r = submit nsCmdRemove d path r"

text \<open>\<open>visit\<close> is the order in which \<^verbatim>\<open>range snap.instances\<close> yields the paths.\<close>

definition ActiveNamespaces :: "(string set \<Rightarrow> string list) \<Rightarrow> 'w relay \<Rightarrow> string list" where
  "ActiveNamespaces visit r = sort (visit (dom (r_snap r)))"

text \<open>The relay as a value of the interface, and the contract it keeps.\<close>

definition relay_controller :: "(string set \<Rightarrow> string list) \<Rightarrow> 'w relay controller" where
  "relay_controller visit =
     \<lparr>ctl_Add = AddNamespace, ctl_Remove = RemoveNamespace, ctl_Active = ActiveNamespaces visit\<rparr>"

definition recorded_intents :: "'w relay \<Rightarrow> intent list" where
  "recorded_intents r = map snd (h_intents r)"

lemma coord_accept_recorded:
  "recorded_intents (coord_accept op p r) = recorded_intents r @ [(op, p)]"
  "r_snap (coord_accept op p r) = r_snap r"
  by (auto simp: recorded_intents_def coord_accept_def Let_def split: nsCmdType.split)

interpretation relay_ctl: namespace_controller "relay_controller visit" recorded_intents for visit
  by unfold_locales
    (auto simp: relay_controller_def AddNamespace_def RemoveNamespace_def submit_def ActiveNamespaces_def
      coord_accept_recorded split: delivery.splits)

section \<open>The reconcile pass\<close>

text \<open>
  The timer case of the \<^verbatim>\<open>select\<close> up to the loops: \<open>ds\<close> and \<open>as\<close> are the orders in which the
  two loops will visit the pending paths.
\<close>

definition coord_fire :: "string list \<Rightarrow> string list \<Rightarrow> 'w relay \<Rightarrow> 'w relay" where
  "coord_fire ds as r = r\<lparr>c_timer := None, c_pc := CReconcile ds as (r_snap r)\<rparr>"

definition set_inst :: "nat \<Rightarrow> nsInstance \<Rightarrow> 'w relay \<Rightarrow> 'w relay" where
  "set_inst i inst r = r\<lparr>r_heap := (r_heap r)(i \<mapsto> inst)\<rparr>"

text \<open>\<^verbatim>\<open>inst.cancelFn()\<close>, the first stage of a teardown.\<close>

definition coord_cancel :: "nat \<Rightarrow> 'w relay \<Rightarrow> 'w relay" where
  "coord_cancel i r =
     (case r_heap r i of None \<Rightarrow> r | Some inst \<Rightarrow> set_inst i (cancel_inst inst) r)"

text \<open>The second stage: close the sockets.\<close>

definition coord_close :: "'w relay_env \<Rightarrow> nat \<Rightarrow> 'w relay \<Rightarrow> 'w relay" where
  "coord_close env i r =
     (case r_heap r i of
        None \<Rightarrow> r
      | Some inst \<Rightarrow> r\<lparr>r_world := close_sockets env (ni_sockets inst) (r_world r)\<rparr>)"

text \<open>The last stage: the goroutines have returned, the handle is closed.\<close>

definition coord_join :: "'w relay_env \<Rightarrow> nat \<Rightarrow> 'w relay \<Rightarrow> 'w relay" where
  "coord_join env i r =
     (case r_heap r i of
        None \<Rightarrow> r
      | Some inst \<Rightarrow>
          (case join_inst env inst (r_world r) of
             (inst', w) \<Rightarrow> set_inst i inst' (r\<lparr>r_world := w\<rparr>)))"

text \<open>The whole \<^verbatim>\<open>teardown\<close>, run without interference.\<close>

definition coord_teardown :: "'w relay_env \<Rightarrow> nat \<Rightarrow> 'w relay \<Rightarrow> 'w relay" where
  "coord_teardown env i r = coord_join env i (coord_close env i (coord_cancel i r))"

definition reconcile_del :: "'w relay_env \<Rightarrow> string \<Rightarrow> (string \<rightharpoonup> nat) \<times> 'w relay \<Rightarrow> (string \<rightharpoonup> nat) \<times> 'w relay" where
  "reconcile_del env p x =
     (case x of (nxt, r) \<Rightarrow>
       (case nxt p of
          None \<Rightarrow> (nxt, r)
        | Some i \<Rightarrow> (nxt(p := None), coord_teardown env i r)))"

definition reconcile_add :: "'w relay_env \<Rightarrow> string \<Rightarrow> (string \<rightharpoonup> nat) \<times> 'w relay \<Rightarrow> (string \<rightharpoonup> nat) \<times> 'w relay" where
  "reconcile_add env p x =
     (case x of (nxt, r) \<Rightarrow>
       (case nxt p of
          Some i \<Rightarrow> (nxt, r)
        | None \<Rightarrow>
            (case buildInstance env (r_groups r) p (r_world r) of
               (Inl err, w) \<Rightarrow> (nxt, r\<lparr>r_world := w\<rparr>)
             | (Inr inst, w) \<Rightarrow>
                 (nxt(p \<mapsto> r_fresh r),
                  set_inst (r_fresh r) inst (r\<lparr>r_world := w, r_fresh := Suc (r_fresh r)\<rparr>)))))"

definition reconcile_store :: "(string \<rightharpoonup> nat) \<Rightarrow> 'w relay \<Rightarrow> 'w relay" where
  "reconcile_store nxt r =
     r\<lparr>r_snap := nxt, c_pendingAdd := {}, c_pendingDel := {}, c_pc := CSelect, h_intents := []\<rparr>"

text \<open>The whole pass, run without interference; \<open>ds\<close> and \<open>as\<close> are the visiting orders.\<close>

definition reconcile :: "'w relay_env \<Rightarrow> string list \<Rightarrow> string list \<Rightarrow> 'w relay \<Rightarrow> 'w relay" where
  "reconcile env ds as r =
     (case fold (reconcile_add env) as (fold (reconcile_del env) ds (r_snap r, r)) of
        (nxt, r') \<Rightarrow> reconcile_store nxt r')"

section \<open>Packets\<close>

text \<open>\<^verbatim>\<open>inst.ctx.Err() != nil\<close>: cancelled itself or through the relay's context.\<close>

definition inst_ctx_done :: "'w relay \<Rightarrow> nsInstance \<Rightarrow> bool" where
  "inst_ctx_done r inst \<longleftrightarrow> ni_done inst \<or> r_ctxDone r"

text \<open>
  \<^verbatim>\<open>broadcast\<close> takes a packet from its channel, lets the middleware process it and loads the
  snapshot; \<open>order\<close> is the order in which it will visit the entries.
\<close>

definition bcast_take :: "string list \<Rightarrow> 'w relay \<Rightarrow> 'w relay" where
  "bcast_take order r =
     (case r_broadcastCh r of
        [] \<Rightarrow> r
      | pkt # rest \<Rightarrow>
          (case mw_Process (r_now r) (r_middleware r) pkt of
             (m, pkt') \<Rightarrow>
               let r = r\<lparr>r_broadcastCh := rest, r_middleware := m,
                         h_processed := h_processed r @ [(r_now r, pkt)]\<rparr>
               in if Data pkt' = None then r
                  else r\<lparr>b_pc := BFan pkt' (map (\<lambda>p. (p, the (r_snap r p))) order),
                         h_fanout := h_fanout r @ [(r_now r, pkt')]\<rparr>))"

text \<open>One turn of the loop over the destinations (without its \<^verbatim>\<open>ctx.Done()\<close> case).\<close>

definition fanout_one :: "packet \<Rightarrow> string \<Rightarrow> nat \<Rightarrow> 'w relay \<Rightarrow> 'w relay" where
  "fanout_one pkt path i r =
     (if path = SourcePath pkt then r
      else case r_heap r i of
        None \<Rightarrow> r
      | Some inst \<Rightarrow>
          if inst_ctx_done r inst then r
          else if length (ni_sendCh inst) < ChannelBuffer
          then set_inst i (inst\<lparr>ni_sendCh := ni_sendCh inst @ [pkt]\<rparr>) r
          else r\<lparr>r_droppedEnqueue := r_droppedEnqueue r + 1\<rparr>)"

text \<open>Whether the drop that made the counter \<open>dropped\<close> is logged.\<close>

definition drop_is_logged :: "64 word \<Rightarrow> bool" where
  "drop_is_logged dropped \<longleftrightarrow> dropped = 1 \<or> dropped mod 100 = 0"

text \<open>
  The send worker takes a packet from the queue of its instance; \<open>None\<close> when the write
  panics. Errors of the write are only logged.
\<close>

definition worker_take :: "'w relay_env \<Rightarrow> nat \<Rightarrow> 'w relay \<Rightarrow> 'w relay option" where
  "worker_take env i r =
     (case r_heap r i of
        None \<Rightarrow> Some r
      | Some inst \<Rightarrow>
          (case ni_sendCh inst of
             [] \<Rightarrow> Some r
           | pkt # rest \<Rightarrow>
               let inst = inst\<lparr>ni_sendCh := rest\<rparr>
               in case ni_socketsByGroup inst (groupKeyFromUDPAddr (Group pkt)) of
                    None \<Rightarrow> Some (set_inst i inst r)
                  | Some k \<Rightarrow>
                      (case env_WriteToGroup env (ni_sockets inst ! k) (bytes_of (Data pkt)) (Source pkt) (TTL pkt)
                              (r_world r) of
                         None \<Rightarrow> None
                       | Some (res, sock, w) \<Rightarrow>
                           Some (set_inst i (inst\<lparr>ni_sockets := (ni_sockets inst)[k := sock]\<rparr>)
                                  (r\<lparr>r_world := w, h_written := insert (ni_path inst, pkt) (h_written r)\<rparr>)))))"

text \<open>The packet \<^verbatim>\<open>receive\<close> builds from what \<^verbatim>\<open>ReadFrom\<close> returned.\<close>

definition received_packet :: "MulticastSocket \<Rightarrow> string \<Rightarrow> byte list \<times> udp_addr \<times> int \<Rightarrow> packet" where
  "received_packet sock sourcePath x =
     (case x of (data, srcAddr, ttl) \<Rightarrow>
       \<lparr>Data = Some data, Source = Some srcAddr, Group = Some (sock_Group sock), TTL = ttl,
        SourcePath = sourcePath\<rparr>)"

definition receive_read :: "nat \<Rightarrow> nsInstance \<Rightarrow> nat \<Rightarrow> packet \<Rightarrow> 'w relay \<Rightarrow> 'w relay" where
  "receive_read i inst k pkt r =
     set_inst i (inst\<lparr>ni_holding := (ni_holding inst)(k \<mapsto> pkt)\<rparr>)
       (r\<lparr>h_received := insert pkt (h_received r)\<rparr>)"

definition receive_push :: "nat \<Rightarrow> nsInstance \<Rightarrow> nat \<Rightarrow> packet \<Rightarrow> 'w relay \<Rightarrow> 'w relay" where
  "receive_push i inst k pkt r =
     set_inst i (inst\<lparr>ni_holding := (ni_holding inst)(k := None)\<rparr>)
       (r\<lparr>r_broadcastCh := r_broadcastCh r @ [pkt]\<rparr>)"

section \<open>A burst of intents\<close>

text \<open>The last intent on a path, if any.\<close>

definition last_intent :: "intent list \<Rightarrow> string \<Rightarrow> nsCmdType option" where
  "last_intent cmds p = map_of (rev (map (\<lambda>(op, q). (q, op)) cmds)) p"

lemma coord_accept_pending:
  "c_pendingAdd (coord_accept op p r) =
     (case op of nsCmdAdd \<Rightarrow> insert p (c_pendingAdd r) | nsCmdRemove \<Rightarrow> c_pendingAdd r - {p})"
  "c_pendingDel (coord_accept op p r) =
     (case op of nsCmdAdd \<Rightarrow> c_pendingDel r - {p} | nsCmdRemove \<Rightarrow> insert p (c_pendingDel r))"
  "c_timer (coord_accept op p r) = Some (r_now r + DebounceWindow)"
  by (auto simp: coord_accept_def Let_def split: nsCmdType.split)

lemma coord_accept_frame [simp]:
  "r_snap (coord_accept op p r) = r_snap r" "r_heap (coord_accept op p r) = r_heap r"
  "r_world (coord_accept op p r) = r_world r" "r_now (coord_accept op p r) = r_now r"
  "r_groups (coord_accept op p r) = r_groups r" "c_pc (coord_accept op p r) = c_pc r"
  "b_pc (coord_accept op p r) = b_pc r" "r_fresh (coord_accept op p r) = r_fresh r"
  "r_broadcastCh (coord_accept op p r) = r_broadcastCh r" "r_middleware (coord_accept op p r) = r_middleware r"
  "r_ctxDone (coord_accept op p r) = r_ctxDone r" "h_fanout (coord_accept op p r) = h_fanout r"
  "h_received (coord_accept op p r) = h_received r" "h_written (coord_accept op p r) = h_written r"
  "r_droppedEnqueue (coord_accept op p r) = r_droppedEnqueue r"
  by (auto simp: coord_accept_def Let_def split: nsCmdType.split)

lemma last_intent_snoc: "last_intent (cmds @ [(op, q)]) p = (if p = q then Some op else last_intent cmds p)"
  by (simp add: last_intent_def)

section \<open>What a reconcile pass does\<close>

lemma reconcile_del_fst: "fst (reconcile_del env p (nxt, r)) = nxt(p := None)"
  by (auto simp: reconcile_del_def split: option.split)

lemma coord_teardown_frame [simp]:
  "r_groups (coord_cancel i r) = r_groups r" "r_groups (coord_close env i r) = r_groups r"
  "r_groups (coord_join env i r) = r_groups r" "r_groups (coord_teardown env i r) = r_groups r"
  by (auto simp: coord_teardown_def coord_cancel_def coord_close_def coord_join_def set_inst_def split: option.split prod.split)

lemma reconcile_del_groups: "r_groups (snd (reconcile_del env p (nxt, r))) = r_groups r"
  by (auto simp: reconcile_del_def split: option.split)

lemma reconcile_dels:
  "fst (fold (reconcile_del env) ds (nxt, r)) = nxt |` (- set ds)
   \<and> r_groups (snd (fold (reconcile_del env) ds (nxt, r))) = r_groups r"
proof (induction ds arbitrary: nxt r)
  case (Cons d ds)
  obtain nxt1 r1 where d: "reconcile_del env d (nxt, r) = (nxt1, r1)" by fastforce
  then have nxt1: "nxt1 = nxt(d := None)" and groups: "r_groups r1 = r_groups r"
    using reconcile_del_fst [of env d nxt r] reconcile_del_groups [of env d nxt r] by auto
  have "nxt1 |` (- set ds) = nxt |` (- set (d # ds))"
    unfolding nxt1 by (rule ext) (simp add: restrict_map_def)
  with Cons.IH [of nxt1 r1] groups show ?case by (simp only: fold_simps d)
qed (simp add: restrict_map_def)

text \<open>A build of the pass succeeds whatever the state of the system.\<close>

definition builds :: "'w relay_env \<Rightarrow> udp_addr list \<Rightarrow> string \<Rightarrow> bool" where
  "builds env groups p \<longleftrightarrow> (\<forall>w. \<exists>inst w'. buildInstance env groups p w = (Inr inst, w'))"

definition never_builds :: "'w relay_env \<Rightarrow> udp_addr list \<Rightarrow> string \<Rightarrow> bool" where
  "never_builds env groups p \<longleftrightarrow> (\<forall>w. \<exists>err w'. buildInstance env groups p w = (Inl err, w'))"

lemma reconcile_add_cases:
  obtains (kept) i where "nxt p = Some i" "reconcile_add env p (nxt, r) = (nxt, r)"
  | (failed) err w where "nxt p = None" "buildInstance env (r_groups r) p (r_world r) = (Inl err, w)"
      "reconcile_add env p (nxt, r) = (nxt, r\<lparr>r_world := w\<rparr>)"
  | (built) inst w where "nxt p = None" "buildInstance env (r_groups r) p (r_world r) = (Inr inst, w)"
      "reconcile_add env p (nxt, r) = (nxt(p \<mapsto> r_fresh r),
         set_inst (r_fresh r) inst (r\<lparr>r_world := w, r_fresh := Suc (r_fresh r)\<rparr>))"
  by (cases "nxt p"; cases "fst (buildInstance env (r_groups r) p (r_world r))";
      cases "buildInstance env (r_groups r) p (r_world r)") (auto simp: reconcile_add_def)

lemma reconcile_adds:
  "fst (fold (reconcile_add env) as (nxt, r)) = nxt' \<Longrightarrow>
   (\<forall>p i. nxt p = Some i \<longrightarrow> nxt' p = Some i)
   \<and> (\<forall>p \<in> dom nxt' - dom nxt. p \<in> set as \<and> \<not> never_builds env (r_groups r) p)
   \<and> (\<forall>p \<in> set as. builds env (r_groups r) p \<longrightarrow> p \<in> dom nxt')"
proof (induction "as" arbitrary: nxt r)
  case (Cons a "as")
  show ?case
  proof (rule reconcile_add_cases [where nxt = nxt and p = a and env = env and r = r])
    fix i assume kept: "nxt a = Some i" "reconcile_add env a (nxt, r) = (nxt, r)"
    with Cons.IH [of nxt r] Cons.prems show ?thesis by auto
  next
    fix err w assume failed: "nxt a = None" "buildInstance env (r_groups r) a (r_world r) = (Inl err, w)"
      "reconcile_add env a (nxt, r) = (nxt, r\<lparr>r_world := w\<rparr>)"
    then have "\<not> builds env (r_groups r) a" unfolding builds_def by (metis Inl_Inr_False prod.inject)
    with failed Cons.IH [of nxt "r\<lparr>r_world := w\<rparr>"] Cons.prems show ?thesis by auto
  next
    fix inst w assume built: "nxt a = None" "buildInstance env (r_groups r) a (r_world r) = (Inr inst, w)"
      "reconcile_add env a (nxt, r) = (nxt(a \<mapsto> r_fresh r),
         set_inst (r_fresh r) inst (r\<lparr>r_world := w, r_fresh := Suc (r_fresh r)\<rparr>))"
    let ?r = "set_inst (r_fresh r) inst (r\<lparr>r_world := w, r_fresh := Suc (r_fresh r)\<rparr>)"
    from built have not_never: "\<not> never_builds env (r_groups r) a" unfolding never_builds_def by (metis Inl_Inr_False prod.inject)
    define r' where "r' = ?r"
    define nxt1 where "nxt1 = nxt(a \<mapsto> r_fresh r)"
    have "r_groups r' = r_groups r" by (simp add: r'_def set_inst_def)
    moreover have "fst (fold (reconcile_add env) as (nxt1, r')) = nxt'"
      using Cons.prems built(3) by (simp add: r'_def nxt1_def)
    ultimately have rest: "\<forall>p i. nxt1 p = Some i \<longrightarrow> nxt' p = Some i"
      "\<forall>p \<in> dom nxt' - dom nxt1. p \<in> set as \<and> \<not> never_builds env (r_groups r) p"
      "\<forall>p \<in> set as. builds env (r_groups r) p \<longrightarrow> p \<in> dom nxt'"
      using Cons.IH [of nxt1 r'] by simp_all
    have dom1: "dom nxt1 = insert a (dom nxt)" by (simp add: nxt1_def)
    have keep: "nxt1 p = Some i" if "nxt p = Some i" for p i using that built(1) by (auto simp: nxt1_def)
    have a: "a \<in> dom nxt'" using rest(1) by (auto simp: nxt1_def)
    show ?thesis
    proof (intro conjI)
      show "\<forall>p i. nxt p = Some i \<longrightarrow> nxt' p = Some i" using rest(1) keep by blast
      show "\<forall>p \<in> dom nxt' - dom nxt. p \<in> set (a # as) \<and> \<not> never_builds env (r_groups r) p"
        using rest(2) dom1 not_never by (metis Diff_iff insert_iff list.simps(15))
      show "\<forall>p \<in> set (a # as). builds env (r_groups r) p \<longrightarrow> p \<in> dom nxt'"
        using rest(3) a by (metis insert_iff list.simps(15))
    qed
  qed
qed auto

lemma reconcile_snap:
  "r_snap (reconcile env ds as r) =
   fst (fold (reconcile_add env) as (fold (reconcile_del env) ds (r_snap r, r)))"
  by (auto simp: reconcile_def reconcile_store_def split: prod.split)

text \<open>
  Paths that no list names keep their instance (the same pointer); deleted paths are gone
  unless they are added as well; an added path is active exactly when it was and stayed
  active or its build succeeded.
\<close>

lemma reconcile_paths:
  shows "p \<notin> set ds \<Longrightarrow> r_snap r p = Some i \<Longrightarrow> r_snap (reconcile env ds as r) p = Some i"
    and "p \<notin> set as \<Longrightarrow> p \<notin> set ds \<Longrightarrow> r_snap (reconcile env ds as r) p = r_snap r p"
    and "p \<notin> set as \<Longrightarrow> p \<in> set ds \<Longrightarrow> r_snap (reconcile env ds as r) p = None"
    and "p \<in> set as \<Longrightarrow> builds env (r_groups r) p \<Longrightarrow> p \<in> dom (r_snap (reconcile env ds as r))"
    and "p \<in> set as \<Longrightarrow> never_builds env (r_groups r) p \<Longrightarrow> p \<notin> dom (r_snap r) \<or> p \<in> set ds \<Longrightarrow>
         p \<notin> dom (r_snap (reconcile env ds as r))"
proof -
  obtain nxt r1 where d: "fold (reconcile_del env) ds (r_snap r, r) = (nxt, r1)" by fastforce
  then have nxt: "nxt = r_snap r |` (- set ds)" "r_groups r1 = r_groups r"
    using reconcile_dels [of env ds "r_snap r" r] by auto
  note adds = reconcile_adds [of env "as" nxt r1, OF refl, unfolded nxt(2)]
  have snap: "r_snap (reconcile env ds as r) = fst (fold (reconcile_add env) as (nxt, r1))"
    by (simp add: reconcile_snap d)
  have kept: "r_snap (reconcile env ds as r) q = Some j" if "nxt q = Some j" for q j
    using adds [THEN conjunct1] that unfolding snap by blast
  have gone: "r_snap (reconcile env ds as r) q = None"
    if "nxt q = None" "q \<notin> set as \<or> never_builds env (r_groups r) q" for q
  proof (rule ccontr)
    assume "r_snap (reconcile env ds as r) q \<noteq> None"
    with that(1) have "q \<in> dom (fst (fold (reconcile_add env) as (nxt, r1))) - dom nxt"
      unfolding snap by (simp add: domIff)
    with adds that(2) show False by blast
  qed
  show "p \<notin> set ds \<Longrightarrow> r_snap r p = Some i \<Longrightarrow> r_snap (reconcile env ds as r) p = Some i"
    by (rule kept) (simp add: nxt restrict_map_def)
  show "p \<notin> set as \<Longrightarrow> p \<notin> set ds \<Longrightarrow> r_snap (reconcile env ds as r) p = r_snap r p"
    using kept [of p] gone [of p] by (cases "r_snap r p") (simp_all add: nxt restrict_map_def)
  show "p \<notin> set as \<Longrightarrow> p \<in> set ds \<Longrightarrow> r_snap (reconcile env ds as r) p = None"
    by (rule gone) (simp_all add: nxt restrict_map_def)
  show "p \<in> set as \<Longrightarrow> builds env (r_groups r) p \<Longrightarrow> p \<in> dom (r_snap (reconcile env ds as r))"
    using adds [THEN conjunct2, THEN conjunct2] unfolding snap by blast
  show "p \<in> set as \<Longrightarrow> never_builds env (r_groups r) p \<Longrightarrow> p \<notin> dom (r_snap r) \<or> p \<in> set ds \<Longrightarrow>
         p \<notin> dom (r_snap (reconcile env ds as r))"
    using gone [of p] by (auto simp add: nxt restrict_map_def domIff)
qed

text \<open>
  The specification of the intents: each one, applied at once, adds its path to the set of
  active namespaces or removes it.
\<close>

fun apply_intent :: "string set \<Rightarrow> intent \<Rightarrow> string set" where
  "apply_intent S (nsCmdAdd, p) = insert p S"
| "apply_intent S (nsCmdRemove, p) = S - {p}"

lemma apply_intents_last:
  "p \<in> foldl apply_intent S cmds \<longleftrightarrow>
   (case last_intent cmds p of Some nsCmdAdd \<Rightarrow> True | Some nsCmdRemove \<Rightarrow> False | None \<Rightarrow> p \<in> S)"
proof (induction cmds rule: rev_induct)
  case Nil
  then show ?case by (simp add: last_intent_def)
next
  case (snoc c cmds)
  obtain op q where c: "c = (op, q)" by fastforce
  then show ?case using snoc by (cases op) (auto simp: last_intent_snoc)
qed

text \<open>One reconcile pass does what applying the intents of the burst one by one would do.\<close>

lemma reconcile_intents:
  assumes "as": "\<And>p. p \<in> set as \<longleftrightarrow> last_intent cmds p = Some nsCmdAdd"
    and ds: "\<And>p. p \<in> set ds \<longleftrightarrow> last_intent cmds p = Some nsCmdRemove"
    and ok: "\<And>p. p \<in> set as \<Longrightarrow> builds env (r_groups r) p"
  shows "dom (r_snap (reconcile env ds as r)) = foldl apply_intent (dom (r_snap r)) cmds"
proof (rule set_eqI)
  fix p
  note paths = reconcile_paths [where p = p and ds = ds and r = r and env = env and as = "as", unfolded "as" ds]
  show "p \<in> dom (r_snap (reconcile env ds as r)) \<longleftrightarrow> p \<in> foldl apply_intent (dom (r_snap r)) cmds"
  proof (cases "last_intent cmds p")
    case None
    with paths(2) show ?thesis by (simp add: apply_intents_last domIff)
  next
    case (Some op)
    with paths(3,4) ok [of p, unfolded "as"] show ?thesis
      by (cases op) (auto simp: apply_intents_last)
  qed
qed

section \<open>Fan-out\<close>

text \<open>
  What one turn of the loop does to the queue of an instance: exactly the destination's
  queue grows, by this packet, and only when the destination is not the packet's source,
  is alive and has room.
\<close>

lemma fanout_one_queue:
  assumes "r_heap r j = Some inst"
  shows "\<exists>inst'. r_heap (fanout_one pkt path i r) j = Some inst' \<and>
    inst' = (if j = i \<and> path \<noteq> SourcePath pkt \<and> \<not> inst_ctx_done r inst
                \<and> length (ni_sendCh inst) < ChannelBuffer
             then inst\<lparr>ni_sendCh := ni_sendCh inst @ [pkt]\<rparr> else inst)"
  using assms by (auto simp: fanout_one_def set_inst_def split: option.splits)

definition fanout :: "packet \<Rightarrow> (string \<times> nat) list \<Rightarrow> 'w relay \<Rightarrow> 'w relay" where
  "fanout pkt dests r = fold (\<lambda>(p, i). fanout_one pkt p i) dests r"

lemma inst_ctx_done_fanout_one:
  "inst_ctx_done (fanout_one pkt path i r) inst \<longleftrightarrow> inst_ctx_done r inst"
  by (auto simp: fanout_one_def set_inst_def inst_ctx_done_def split: option.splits)

lemma fanout_queue_other:
  "j \<notin> snd ` set dests \<Longrightarrow> r_heap (fanout pkt dests r) j = r_heap r j"
proof (induction dests arbitrary: r)
  case (Cons d ds)
  obtain p i where d: "d = (p, i)" by fastforce
  have "r_heap (fanout_one pkt p i r) j = r_heap r j"
    using Cons.prems d by (auto simp: fanout_one_def set_inst_def split: option.splits)
  with Cons d show ?case by (simp add: fanout_def)
qed (simp add: fanout_def)

text \<open>
  The whole loop, run without interference: every destination other than the source gets
  the packet once, if it is alive and has room.
\<close>

lemma fanout_queue:
  assumes "distinct (map snd dests)" and "(path, j) \<in> set dests" and "r_heap r j = Some inst"
  shows "r_heap (fanout pkt dests r) j = Some
    (if path \<noteq> SourcePath pkt \<and> \<not> inst_ctx_done r inst \<and> length (ni_sendCh inst) < ChannelBuffer
     then inst\<lparr>ni_sendCh := ni_sendCh inst @ [pkt]\<rparr> else inst)"
  using assms
proof (induction dests arbitrary: r)
  case (Cons d ds)
  obtain p i where d: "d = (p, i)" by fastforce
  have step: "fanout pkt (d # ds) r = fanout pkt ds (fanout_one pkt p i r)" by (simp add: fanout_def d)
  obtain inst1 where inst1: "r_heap (fanout_one pkt p i r) j = Some inst1"
    "inst1 = (if j = i \<and> p \<noteq> SourcePath pkt \<and> \<not> inst_ctx_done r inst
                \<and> length (ni_sendCh inst) < ChannelBuffer
             then inst\<lparr>ni_sendCh := ni_sendCh inst @ [pkt]\<rparr> else inst)"
    using fanout_one_queue [OF Cons.prems(3)] by blast
  show ?case
  proof (cases "(path, j) = d")
    case True
    with Cons.prems(1) d have "j \<notin> snd ` set ds" by auto
    with inst1 True d show ?thesis unfolding step by (simp add: fanout_queue_other)
  next
    case False
    with Cons.prems d have mem: "(path, j) \<in> set ds" and ne: "j \<noteq> i" by force+
    with inst1 have same: "r_heap (fanout_one pkt p i r) j = Some inst" by simp
    from Cons.prems(1) d have "distinct (map snd ds)" by simp
    from Cons.IH [OF this mem same] show ?thesis
      unfolding step by (simp add: inst_ctx_done_fanout_one)
  qed
qed simp

end
