(* ===== verification/Control.thy ===== *)
theory Control
  imports Coordinator
begin

text \<open>
  \<^verbatim>\<open>internal/control/server.go\<close>, the requests: decoding and validating a namespace path, the
  six handlers of the mux and the map of container namespaces. The handlers run against any
  value of the controller interface; their lemmas are proved in the locale of the interface
  and hold for the relay by its interpretation. The JSON decoder and the size-limited
  reader are parameters; a response is its status and the JSON value it carries.
\<close>

section \<open>Errors, patterns and bodies\<close>

definition maxMutatingBodyBytes :: int where
  "maxMutatingBodyBytes = 4 * 1024"

datatype control_error =
    errInvalidJSONBody | errPathRequired | errPathMustBeAbsolute | errRequestBodyTooLarge
  | errInvalidNamespaceFormat | errInvalidContainerID

fun control_message :: "control_error \<Rightarrow> string" where
  "control_message errInvalidJSONBody = ''invalid JSON body''"
| "control_message errPathRequired = ''path is required''"
| "control_message errPathMustBeAbsolute = ''path must be absolute''"
| "control_message errRequestBodyTooLarge = ''request body too large''"
| "control_message errInvalidNamespaceFormat = ''namespace path must be /proc/<pid>/ns/net format''"
| "control_message errInvalidContainerID = ''container ID must be 64 lowercase hexadecimal characters''"

definition namespacePathPattern :: "string \<Rightarrow> bool" where
  "namespacePathPattern s \<longleftrightarrow> HasPrefix s ''/proc/'' \<and> match_digits_then ''/ns/net'' (drop 6 s)"

definition containerIDPattern :: "string \<Rightarrow> bool" where
  "containerIDPattern s \<longleftrightarrow> length s = 64 \<and> list_all is_lower_hex s"

text \<open>
  The body of a request is a value of \<open>'b\<close>: the reader limited to a number of bytes, the
  first \<^verbatim>\<open>Decode\<close> into the payload and the second one into an empty struct, \<open>None\<close> when it
  succeeds.
\<close>

record 'b json_api =
  MaxBytesReader :: "int \<Rightarrow> 'b \<Rightarrow> 'b"
  Decode_payload :: "'b \<Rightarrow> string result \<times> 'b"
  Decode_empty :: "'b \<Rightarrow> goerr option \<times> 'b"

record 'b request =
  rq_ContentType :: string
  rq_Body :: 'b
  rq_id :: string

definition decode_failed :: "goerr \<Rightarrow> control_error" where
  "decode_failed err = (if errors_Is err MaxBytes then errRequestBodyTooLarge else errInvalidJSONBody)"

definition extractNamespacePath :: "'b json_api \<Rightarrow> 'b request \<Rightarrow> int \<Rightarrow> control_error + string" where
  "extractNamespacePath json req maxBodyBytes =
     (let body = MaxBytesReader json maxBodyBytes (rq_Body req)
      in if \<not> Contains (rq_ContentType req) ''application/json'' then Inl errInvalidJSONBody
         else (case Decode_payload json body of
             (Inl err, _) \<Rightarrow> Inl (decode_failed err)
           | (Inr path, body') \<Rightarrow>
               (case Decode_empty json body' of
                  (None, _) \<Rightarrow> Inl errInvalidJSONBody
                | (Some err, _) \<Rightarrow>
                    if err \<noteq> Sentinel EOF then Inl (decode_failed err)
                    else if TrimSpace path = '''' then Inl errPathRequired
                    else Inr (TrimSpace path))))"

definition canonicalizeNamespacePath :: "string \<Rightarrow> control_error + string" where
  "canonicalizeNamespacePath path =
     (case CanonicalizePath path of
        Inl err \<Rightarrow>
          if Contains (error_string err) ''required'' then Inl errPathRequired else Inl errPathMustBeAbsolute
      | Inr cleaned \<Rightarrow>
          if \<not> namespacePathPattern cleaned then Inl errInvalidNamespaceFormat else Inr cleaned)"

section \<open>Responses\<close>

text \<open>The members of an object in the order the encoder writes them, sorted by key.\<close>

datatype json = JBool bool | JInt int | JString string | JArray "json list" | JObject "(string \<times> json) list"

record response =
  rs_status :: nat
  rs_ContentType :: string
  rs_payload :: json

abbreviation (input) StatusOK :: nat where "StatusOK \<equiv> 200"
abbreviation (input) StatusAccepted :: nat where "StatusAccepted \<equiv> 202"
abbreviation (input) StatusBadRequest :: nat where "StatusBadRequest \<equiv> 400"
abbreviation (input) StatusRequestEntityTooLarge :: nat where "StatusRequestEntityTooLarge \<equiv> 413"
abbreviation (input) StatusInternalServerError :: nat where "StatusInternalServerError \<equiv> 500"

definition writeJSON :: "nat \<Rightarrow> json \<Rightarrow> response" where
  "writeJSON status payload =
     \<lparr>rs_status = status, rs_ContentType = ''application/json'', rs_payload = payload\<rparr>"

definition writeJSONError :: "nat \<Rightarrow> string \<Rightarrow> response" where
  "writeJSONError status message =
     writeJSON status (JObject [(''error'', JObject [(''message'', JString message)])])"

definition writeRequestError :: "control_error \<Rightarrow> response" where
  "writeRequestError err =
     (if err = errRequestBodyTooLarge
      then writeJSONError StatusRequestEntityTooLarge (control_message err)
      else writeJSONError StatusBadRequest (control_message err))"

section \<open>Handlers\<close>

text \<open>
  The state behind the mux: the controller's and the map \<^verbatim>\<open>containerNamespaces\<close>, which
  \<^verbatim>\<open>containerMu\<close> makes each container request see in one piece.
\<close>

record 's control_state =
  cs_ctl :: 's
  containerNamespaces :: "string \<rightharpoonup> string"

definition handle_healthz :: response where
  "handle_healthz = writeJSON StatusOK (JObject [(''ok'', JBool True)])"

definition handle_list :: "'s controller \<Rightarrow> 's \<Rightarrow> response" where
  "handle_list ctl s =
     (let namespaces = ctl_Active ctl s
      in writeJSON StatusOK
           (JObject [(''count'', JInt (int (length namespaces))),
                     (''namespaces'', JArray (map JString namespaces))]))"

definition accepted_path :: "string \<Rightarrow> string \<Rightarrow> response" where
  "accepted_path operation path =
     writeJSON StatusAccepted
       (JObject [(''accepted'', JBool True), (''applied'', JBool False), (''mode'', JString ''intent''),
                 (''operation'', JString operation), (''path'', JString path)])"

text \<open>The validation that starts the four mutating handlers with a body.\<close>

definition request_path :: "'b json_api \<Rightarrow> 'b request \<Rightarrow> response + string" where
  "request_path json req =
     (case extractNamespacePath json req maxMutatingBodyBytes of
        Inl err \<Rightarrow> Inl (writeRequestError err)
      | Inr path \<Rightarrow>
          (case canonicalizeNamespacePath path of
             Inl err \<Rightarrow> Inl (writeJSONError StatusBadRequest (control_message err))
           | Inr path' \<Rightarrow> Inr path'))"

definition handle_add ::
  "'b json_api \<Rightarrow> 's controller \<Rightarrow> delivery \<Rightarrow> 'b request \<Rightarrow> 's \<Rightarrow> response \<times> 's" where
  "handle_add json ctl d req s =
     (case request_path json req of
        Inl resp \<Rightarrow> (resp, s)
      | Inr path \<Rightarrow>
          (case ctl_Add ctl d path s of
             (Some err, s') \<Rightarrow> (writeJSONError StatusInternalServerError (error_string err), s')
           | (None, s') \<Rightarrow> (accepted_path ''add'' path, s')))"

definition handle_remove ::
  "'b json_api \<Rightarrow> 's controller \<Rightarrow> delivery \<Rightarrow> 'b request \<Rightarrow> 's \<Rightarrow> response \<times> 's" where
  "handle_remove json ctl d req s =
     (case request_path json req of
        Inl resp \<Rightarrow> (resp, s)
      | Inr path \<Rightarrow>
          (case ctl_Remove ctl d path s of
             (Some err, s') \<Rightarrow> (writeJSONError StatusInternalServerError (error_string err), s')
           | (None, s') \<Rightarrow> (accepted_path ''remove'' path, s')))"

definition remove_replaced ::
  "'s controller \<Rightarrow> delivery \<Rightarrow> string option \<Rightarrow> string \<Rightarrow> 's \<Rightarrow> goerr option \<times> 's" where
  "remove_replaced ctl d old path s =
     (case old of
        None \<Rightarrow> (None, s)
      | Some oldPath \<Rightarrow> if oldPath \<noteq> path then ctl_Remove ctl d oldPath s else (None, s))"

text \<open>\<open>d1\<close> and \<open>d2\<close> are how the calls that remove the old path and add the new one go.\<close>

definition handle_put ::
  "'b json_api \<Rightarrow> 's controller \<Rightarrow> delivery \<Rightarrow> delivery \<Rightarrow> 'b request \<Rightarrow> 's control_state
   \<Rightarrow> response \<times> 's control_state" where
  "handle_put json ctl d1 d2 req st =
     (let containerID = rq_id req
      in if \<not> containerIDPattern containerID
         then (writeJSONError StatusBadRequest (control_message errInvalidContainerID), st)
         else (case request_path json req of
             Inl resp \<Rightarrow> (resp, st)
           | Inr path \<Rightarrow>
               (case remove_replaced ctl d1 (containerNamespaces st containerID) path (cs_ctl st) of
                  (Some err, s1) \<Rightarrow>
                    (writeJSONError StatusInternalServerError (error_string err), st\<lparr>cs_ctl := s1\<rparr>)
                | (None, s1) \<Rightarrow>
                    (case ctl_Add ctl d2 path s1 of
                       (Some err, s2) \<Rightarrow>
                         (writeJSONError StatusInternalServerError (error_string err), st\<lparr>cs_ctl := s2\<rparr>)
                     | (None, s2) \<Rightarrow>
                         (writeJSON StatusAccepted
                            (JObject [(''accepted'', JBool True), (''applied'', JBool False),
                                      (''container_id'', JString containerID), (''mode'', JString ''intent''),
                                      (''operation'', JString ''upsert''), (''path'', JString path)]),
                          st\<lparr>cs_ctl := s2,
                             containerNamespaces := (containerNamespaces st)(containerID \<mapsto> path)\<rparr>)))))"

definition handle_delete ::
  "'s controller \<Rightarrow> delivery \<Rightarrow> 'b request \<Rightarrow> 's control_state \<Rightarrow> response \<times> 's control_state" where
  "handle_delete ctl d req st =
     (let containerID = rq_id req;
          accepted = writeJSON StatusAccepted
            (JObject [(''accepted'', JBool True), (''applied'', JBool False),
                      (''container_id'', JString containerID), (''mode'', JString ''intent''),
                      (''operation'', JString ''remove'')])
      in if \<not> containerIDPattern containerID
         then (writeJSONError StatusBadRequest (control_message errInvalidContainerID), st)
         else (case containerNamespaces st containerID of
             None \<Rightarrow> (accepted, st)
           | Some path \<Rightarrow>
               (case ctl_Remove ctl d path (cs_ctl st) of
                  (Some err, s1) \<Rightarrow>
                    (writeJSONError StatusInternalServerError (error_string err), st\<lparr>cs_ctl := s1\<rparr>)
                | (None, s1) \<Rightarrow>
                    (accepted, st\<lparr>cs_ctl := s1,
                       containerNamespaces := (containerNamespaces st)(containerID := None)\<rparr>))))"

section \<open>The mux\<close>

text \<open>The patterns that \<^verbatim>\<open>NewUnixServer\<close> registers.\<close>

datatype route = Healthz | ListNamespaces | AddRoute | RemoveRoute | PutContainer | DeleteContainer

fun mux_pattern :: "route \<Rightarrow> string" where
  "mux_pattern Healthz = ''GET /v1/healthz''"
| "mux_pattern ListNamespaces = ''GET /v1/namespaces''"
| "mux_pattern AddRoute = ''POST /v1/namespaces/add''"
| "mux_pattern RemoveRoute = ''POST /v1/namespaces/remove''"
| "mux_pattern PutContainer = ''PUT /v1/containers/{id}/namespace''"
| "mux_pattern DeleteContainer = ''DELETE /v1/containers/{id}/namespace''"

definition serve_route ::
  "'b json_api \<Rightarrow> 's controller \<Rightarrow> route \<Rightarrow> delivery \<Rightarrow> delivery \<Rightarrow> 'b request \<Rightarrow> 's control_state
   \<Rightarrow> response \<times> 's control_state" where
  "serve_route json ctl rt d1 d2 req st =
     (case rt of
        Healthz \<Rightarrow> (handle_healthz, st)
      | ListNamespaces \<Rightarrow> (handle_list ctl (cs_ctl st), st)
      | AddRoute \<Rightarrow> (case handle_add json ctl d1 req (cs_ctl st) of (resp, s') \<Rightarrow> (resp, st\<lparr>cs_ctl := s'\<rparr>))
      | RemoveRoute \<Rightarrow> (case handle_remove json ctl d1 req (cs_ctl st) of (resp, s') \<Rightarrow> (resp, st\<lparr>cs_ctl := s'\<rparr>))
      | PutContainer \<Rightarrow> handle_put json ctl d1 d2 req st
      | DeleteContainer \<Rightarrow> handle_delete ctl d1 req st)"

section \<open>Validation\<close>

lemma namespacePathPattern_iff:
  "namespacePathPattern s \<longleftrightarrow>
   (\<exists>ds. ds \<noteq> [] \<and> (\<forall>d \<in> set ds. is_digit d) \<and> s = ''/proc/'' @ ds @ ''/ns/net'')"
proof -
  have pre: "prefix ''/proc/'' s \<longleftrightarrow> (\<exists>t. s = ''/proc/'' @ t)" by (auto simp: prefix_def)
  have m: "match_digits_then ''/ns/net'' t \<longleftrightarrow>
      (\<exists>ds. ds \<noteq> [] \<and> (\<forall>d \<in> set ds. is_digit d) \<and> t = ds @ ''/ns/net'')" for t
    by (rule match_digits_then_iff) (simp add: is_digit_def)
  show ?thesis
  proof
    assume "namespacePathPattern s"
    then obtain t where "s = ''/proc/'' @ t" "match_digits_then ''/ns/net'' t"
      by (auto simp: namespacePathPattern_def HasPrefix_def pre)
    with m [of t] show "\<exists>ds. ds \<noteq> [] \<and> (\<forall>d \<in> set ds. is_digit d) \<and> s = ''/proc/'' @ ds @ ''/ns/net''" by auto
  next
    assume "\<exists>ds. ds \<noteq> [] \<and> (\<forall>d \<in> set ds. is_digit d) \<and> s = ''/proc/'' @ ds @ ''/ns/net''"
    then obtain ds where ds: "ds \<noteq> []" "\<forall>d \<in> set ds. is_digit d" "s = ''/proc/'' @ (ds @ ''/ns/net'')" by auto
    have "match_digits_then ''/ns/net'' (ds @ ''/ns/net'')" unfolding m using ds(1,2) by blast
    then show "namespacePathPattern s" by (simp add: namespacePathPattern_def HasPrefix_def ds(3))
  qed
qed

lemma digits_plain:
  assumes "ds \<noteq> []" and "\<forall>d \<in> set ds. is_digit d"
  shows "plain_element ds"
proof -
  have "\<not> is_digit CHR ''.''" "\<not> is_digit CHR ''/''" by (simp_all add: is_digit_def)
  with assms(2) have "CHR ''.'' \<notin> set ds" "CHR ''/'' \<notin> set ds" by blast+
  then show ?thesis using assms(1) by (auto simp: plain_element_def)
qed

text \<open>A path of the pattern is canonical already.\<close>

lemma pattern_canonical:
  assumes "namespacePathPattern s"
  shows "TrimSpace s = s" and "Clean s = s" and "IsAbs s"
proof -
  obtain ds where ds: "ds \<noteq> []" "\<forall>d \<in> set ds. is_digit d" "s = ''/proc/'' @ ds @ ''/ns/net''"
    using assms unfolding namespacePathPattern_iff by blast
  show "IsAbs s" by (simp add: ds(3))
  show "TrimSpace s = s"
    by (rule TrimSpace_unchanged [of "CHR ''/''" "CHR ''t''" s "''proc/'' @ ds @ ''/ns/net''" "''/proc/'' @ ds @ ''/ns/ne''"])
      (simp_all add: space_runes_def ds(3))
  have "s = ''/'' @ sep_concat ''/'' [''proc'', ds, ''ns'', ''net'']" by (simp add: ds(3))
  moreover have "Clean (''/'' @ sep_concat ''/'' [''proc'', ds, ''ns'', ''net'']) = ''/'' @ sep_concat ''/'' [''proc'', ds, ''ns'', ''net'']"
    by (rule Clean_abs_fixpoint) (use digits_plain [OF ds(1,2)] in \<open>auto simp: plain_element_def\<close>)
  ultimately show "Clean s = s" by simp
qed

lemma canonicalizeNamespacePath_Inr_iff:
  "canonicalizeNamespacePath path = Inr c \<longleftrightarrow>
     IsAbs (TrimSpace path) \<and> c = Clean (TrimSpace path) \<and> namespacePathPattern c"
proof (cases "CanonicalizePath path")
  case (Inl e)
  then have "\<not> IsAbs (TrimSpace path)" using CanonicalizePath_Inr_iff [of path] by auto
  with Inl show ?thesis by (simp add: canonicalizeNamespacePath_def)
next
  case (Inr d)
  then have "IsAbs (TrimSpace path) \<and> d = Clean (TrimSpace path)" by (rule CanonicalizePath_Inr_iff [THEN iffD1])
  with Inr show ?thesis by (auto simp: canonicalizeNamespacePath_def)
qed

lemma extractNamespacePath_Inr:
  assumes "extractNamespacePath json req n = Inr p"
  shows "Contains (rq_ContentType req) ''application/json''" and "p \<noteq> ''''"
    and "\<exists>raw body. Decode_payload json (MaxBytesReader json n (rq_Body req)) = (Inr raw, body)
           \<and> fst (Decode_empty json body) = Some (Sentinel EOF) \<and> p = TrimSpace raw"
  using assms by (auto simp: extractNamespacePath_def Let_def split: if_splits prod.splits sum.splits option.splits)

lemma request_path_Inr:
  assumes "request_path json req = Inr p"
  shows "namespacePathPattern p" and "canonicalizeNamespacePath p = Inr p"
proof -
  from assms obtain raw where "canonicalizeNamespacePath raw = Inr p"
    by (auto simp: request_path_def split: sum.splits)
  then show pat: "namespacePathPattern p" unfolding canonicalizeNamespacePath_Inr_iff by blast
  from pat show "canonicalizeNamespacePath p = Inr p"
    by (simp add: canonicalizeNamespacePath_Inr_iff pattern_canonical)
qed

lemma writeJSON_status [simp]: "rs_status (writeJSON n p) = n" "rs_status (writeJSONError n m) = n"
  "rs_status (accepted_path operation path) = 202"
  by (simp_all add: writeJSON_def writeJSONError_def accepted_path_def)

lemma request_path_Inl: "request_path json req = Inl resp \<Longrightarrow> rs_status resp \<in> {400, 413}"
  by (auto simp: request_path_def writeRequestError_def split: sum.splits if_splits)

section \<open>The handlers on any controller\<close>

context namespace_controller
begin

lemma handle_add_recorded:
  assumes "handle_add json ctl d req s = (resp, s')"
  shows "rs_status resp = 202 \<Longrightarrow> \<exists>p. request_path json req = Inr p \<and> recorded s' = recorded s @ [(nsCmdAdd, p)]"
    and "rs_status resp \<in> {400, 413} \<Longrightarrow> s' = s"
    and "rs_status resp \<in> {202, 400, 413, 500}"
  using assms add_ok
  by (auto simp: handle_add_def dest: request_path_Inl split: sum.splits prod.splits option.splits)

lemma handle_remove_recorded:
  assumes "handle_remove json ctl d req s = (resp, s')"
  shows "rs_status resp = 202 \<Longrightarrow> \<exists>p. request_path json req = Inr p \<and> recorded s' = recorded s @ [(nsCmdRemove, p)]"
    and "rs_status resp \<in> {400, 413} \<Longrightarrow> s' = s"
    and "rs_status resp \<in> {202, 400, 413, 500}"
  using assms remove_ok
  by (auto simp: handle_remove_def dest: request_path_Inl split: sum.splits prod.splits option.splits)

text \<open>The intents of an accepted upsert: the removal of the path it replaces, then the addition.\<close>

lemma remove_replaced_recorded:
  "remove_replaced ctl d old p s = (None, s') \<Longrightarrow>
   recorded s' = recorded s @ (case old of Some q \<Rightarrow> if q \<noteq> p then [(nsCmdRemove, q)] else [] | None \<Rightarrow> [])"
  using remove_ok by (auto simp: remove_replaced_def split: option.splits if_splits)

lemma handle_put_accepted:
  assumes "handle_put json ctl d1 d2 req st = (resp, st')" and "rs_status resp = 202"
  shows "\<exists>p. request_path json req = Inr p \<and> containerIDPattern (rq_id req)
     \<and> containerNamespaces st' = (containerNamespaces st)(rq_id req \<mapsto> p)
     \<and> recorded (cs_ctl st') = recorded (cs_ctl st)
          @ (case containerNamespaces st (rq_id req) of Some q \<Rightarrow> if q \<noteq> p then [(nsCmdRemove, q)] else [] | None \<Rightarrow> [])
          @ [(nsCmdAdd, p)]"
proof -
  have valid: "containerIDPattern (rq_id req)"
    using assms by (auto simp: handle_put_def Let_def split: if_splits)
  with assms obtain p where p: "request_path json req = Inr p"
    by (cases "request_path json req") (auto simp: handle_put_def Let_def dest: request_path_Inl)
  obtain r1 s1 where 1: "remove_replaced ctl d1 (containerNamespaces st (rq_id req)) p (cs_ctl st) = (r1, s1)" by fastforce
  obtain r2 s2 where 2: "ctl_Add ctl d2 p s1 = (r2, s2)" by fastforce
  have none: "r1 = None" "r2 = None"
    using assms valid p 1 2 by (auto simp: handle_put_def Let_def split: option.splits)
  with assms valid p 1 2 have "st' = st\<lparr>cs_ctl := s2, containerNamespaces := (containerNamespaces st)(rq_id req \<mapsto> p)\<rparr>"
    by (auto simp: handle_put_def Let_def)
  with p valid remove_replaced_recorded [OF 1 [unfolded none]] add_ok [OF 2 [unfolded none]] show ?thesis by auto
qed

lemma handle_put_refused:
  assumes "handle_put json ctl d1 d2 req st = (resp, st')" and "rs_status resp \<noteq> 202"
  shows "containerNamespaces st' = containerNamespaces st" and "rs_status resp \<in> {400, 413} \<Longrightarrow> st' = st"
  using assms by (auto simp: handle_put_def Let_def dest: request_path_Inl split: if_splits sum.splits prod.splits option.splits)

lemma handle_delete_accepted:
  assumes "handle_delete ctl d req st = (resp, st')" and "rs_status resp = 202"
  shows "containerNamespaces st' = (containerNamespaces st)(rq_id req := None)
     \<and> recorded (cs_ctl st') = recorded (cs_ctl st)
          @ (case containerNamespaces st (rq_id req) of Some p \<Rightarrow> [(nsCmdRemove, p)] | None \<Rightarrow> [])"
  using assms remove_ok
  by (auto simp: handle_delete_def Let_def fun_upd_idem split: if_splits prod.splits option.splits)

lemma handle_delete_refused:
  assumes "handle_delete ctl d req st = (resp, st')" and "rs_status resp \<noteq> 202"
  shows "containerNamespaces st' = containerNamespaces st"
  using assms by (auto simp: handle_delete_def Let_def split: if_splits prod.splits option.splits)

text \<open>No request applies an intent: what the relay relays is unchanged when it is answered.\<close>

lemma active_add': "ctl_Add ctl d p s = (r, s') \<Longrightarrow> ctl_Active ctl s' = ctl_Active ctl s"
  using active_add [of d p s] by simp

lemma active_remove': "ctl_Remove ctl d p s = (r, s') \<Longrightarrow> ctl_Active ctl s' = ctl_Active ctl s"
  using active_remove [of d p s] by simp

lemma active_replaced: "remove_replaced ctl d old p s = (r, s') \<Longrightarrow> ctl_Active ctl s' = ctl_Active ctl s"
  using active_remove' by (auto simp: remove_replaced_def split: option.splits if_splits)

lemma serve_route_active:
  assumes "serve_route json ctl rt d1 d2 req st = (resp, st')"
  shows "ctl_Active ctl (cs_ctl st') = ctl_Active ctl (cs_ctl st)"
  using assms
  by (auto simp: serve_route_def handle_add_def handle_remove_def handle_put_def handle_delete_def Let_def
      dest!: active_add' active_remove' active_replaced
      split: route.splits if_splits sum.splits prod.splits option.splits)

end

section \<open>The container map\<close>

definition containers_ok :: "(string \<rightharpoonup> string) \<Rightarrow> bool" where
  "containers_ok m \<longleftrightarrow> (\<forall>i p. m i = Some p \<longrightarrow> containerIDPattern i \<and> namespacePathPattern p)"

context namespace_controller
begin

lemma serve_route_containers:
  assumes "serve_route json ctl rt d1 d2 req st = (resp, st')" and ok: "containers_ok (containerNamespaces st)"
  shows "containers_ok (containerNamespaces st')"
proof (cases "rt = PutContainer \<or> rt = DeleteContainer")
  case False
  then have "containerNamespaces st' = containerNamespaces st"
    using assms(1) by (cases rt) (auto simp: serve_route_def split: prod.splits)
  with ok show ?thesis by simp
next
  case True
  show ?thesis
  proof (cases "rt = PutContainer")
    case True
    with assms(1) have put: "handle_put json ctl d1 d2 req st = (resp, st')" by (simp add: serve_route_def)
    show ?thesis
    proof (cases "rs_status resp = 202")
      case True
      from handle_put_accepted [OF put True] obtain p where "request_path json req = Inr p" "containerIDPattern (rq_id req)"
        "containerNamespaces st' = (containerNamespaces st)(rq_id req \<mapsto> p)" by blast
      moreover from this(1) have "namespacePathPattern p" by (rule request_path_Inr)
      ultimately show ?thesis using ok by (auto simp: containers_ok_def)
    qed (use handle_put_refused(1) [OF put] ok in simp)
  next
    case False
    with \<open>rt = PutContainer \<or> rt = DeleteContainer\<close> assms(1) have del: "handle_delete ctl d1 req st = (resp, st')"
      by (simp add: serve_route_def)
    show ?thesis
    proof (cases "rs_status resp = 202")
      case True
      from handle_delete_accepted [OF del True] ok show ?thesis by (auto simp: containers_ok_def)
    qed (use handle_delete_refused [OF del] ok in simp)
  qed
qed

end

text \<open>
  The namespaces the recorded intents ask for, and the refinement of the container map:
  while no two containers share a namespace, an upsert or a removal keeps the namespaces
  asked for equal to those of the map.
\<close>

definition requested :: "string set \<Rightarrow> intent list \<Rightarrow> string set" where
  "requested S intents = foldl apply_intent S intents"

lemma requested_append: "requested S (xs @ ys) = requested (requested S xs) ys"
  by (simp add: requested_def)

lemma ran_delete_inj:
  assumes "inj_on m (dom m)"
  shows "ran (m(i := None)) = (case m i of Some q \<Rightarrow> ran m - {q} | None \<Rightarrow> ran m)"
proof -
  have "a = b" if "m a = Some q" "m b = Some q" for a b q
    using inj_onD [OF assms, of a b] that by auto
  from ran_delete [of m, OF this] show ?thesis by (cases "m i") (simp_all add: fun_upd_idem)
qed

lemma ran_upd_inj:
  assumes "inj_on m (dom m)"
  shows "ran (m(i \<mapsto> p)) = insert p (case m i of Some q \<Rightarrow> ran m - {q} | None \<Rightarrow> ran m)"
  unfolding ran_delete_inj [OF assms, symmetric] by (metis fun_upd_same fun_upd_upd ran_map_upd)

lemma apply_intent_simps: "requested S [] = S" "requested S ((nsCmdAdd, p) # xs) = requested (insert p S) xs"
  "requested S ((nsCmdRemove, p) # xs) = requested (S - {p}) xs"
  by (simp_all add: requested_def)

context namespace_controller
begin

lemma handle_put_requested:
  assumes put: "handle_put json ctl d1 d2 req st = (resp, st')" and ok: "rs_status resp = 202"
    and path: "request_path json req = Inr p"
    and inj: "inj_on (containerNamespaces st) (dom (containerNamespaces st))"
    and unshared: "p \<notin> ran ((containerNamespaces st)(rq_id req := None))"
    and "requested S (recorded (cs_ctl st)) = ran (containerNamespaces st)"
  shows "requested S (recorded (cs_ctl st')) = ran (containerNamespaces st')"
    and "inj_on (containerNamespaces st') (dom (containerNamespaces st'))"
proof -
  let ?m = "containerNamespaces st"
  have m': "containerNamespaces st' = ?m(rq_id req \<mapsto> p)"
    and rec: "recorded (cs_ctl st') = recorded (cs_ctl st)
        @ (case ?m (rq_id req) of Some q \<Rightarrow> if q \<noteq> p then [(nsCmdRemove, q)] else [] | None \<Rightarrow> []) @ [(nsCmdAdd, p)]"
    using handle_put_accepted [OF put ok] path by auto
  show "requested S (recorded (cs_ctl st')) = ran (containerNamespaces st')"
    unfolding rec m' requested_append assms(6) ran_upd_inj [OF inj]
    by (auto simp: apply_intent_simps split: option.split)
  show "inj_on (containerNamespaces st') (dom (containerNamespaces st'))"
  proof -
    have "?m j \<noteq> Some p" if "j \<noteq> rq_id req" for j
      using unshared that by (metis fun_upd_other ranI)
    with inj show ?thesis unfolding m' by (auto simp: inj_on_def)
  qed
qed

lemma handle_delete_requested:
  assumes del: "handle_delete ctl d req st = (resp, st')" and ok: "rs_status resp = 202"
    and inj: "inj_on (containerNamespaces st) (dom (containerNamespaces st))"
    and "requested S (recorded (cs_ctl st)) = ran (containerNamespaces st)"
  shows "requested S (recorded (cs_ctl st')) = ran (containerNamespaces st')"
proof -
  let ?m = "containerNamespaces st"
  have m': "containerNamespaces st' = ?m(rq_id req := None)"
    and rec: "recorded (cs_ctl st') = recorded (cs_ctl st)
        @ (case ?m (rq_id req) of Some p \<Rightarrow> [(nsCmdRemove, p)] | None \<Rightarrow> [])"
    using handle_delete_accepted [OF del ok] by auto
  have "ran (?m(rq_id req := None)) = (case ?m (rq_id req) of Some q \<Rightarrow> ran ?m - {q} | None \<Rightarrow> ran ?m)"
    by (rule ran_delete_inj [OF inj])
  then show ?thesis
    unfolding rec m' requested_append assms(4) by (auto simp: apply_intent_simps split: option.split)
qed

end

end
