(* ===== verification/ControlServer.thy ===== *)
theory ControlServer
  imports Config Control
begin

text \<open>
  \<^verbatim>\<open>internal/control/server.go\<close>, the server itself: \<^verbatim>\<open>NewUnixServer\<close> from the validation of
  its arguments to the bound and protected socket, the removal of a stale socket, the group
  lookup, \<^verbatim>\<open>Run\<close> and the per-request timeout. The file system, the user database and the
  Unix-domain calls are the record \<open>unix_api\<close>; the handlers it registers are those of
  \<open>Control\<close>.
\<close>

section \<open>The system calls\<close>

text \<open>
  \<open>LookupGroup\<close> returns the text of the group's GID, \<open>Stat\<close> whether the file is a socket;
  connections and listeners are descriptors. \<open>Quote\<close> is the verb \<^verbatim>\<open>%q\<close>.
\<close>

record 'w unix_api =
  LookupGroup :: "string \<Rightarrow> 'w \<Rightarrow> string result \<times> 'w"
  MkdirAll :: "string \<Rightarrow> file_mode \<Rightarrow> 'w \<Rightarrow> goerr option \<times> 'w"
  Stat :: "string \<Rightarrow> 'w \<Rightarrow> bool result \<times> 'w"
  Dial :: "string \<Rightarrow> 'w \<Rightarrow> nat result \<times> 'w"
  Conn_Close :: "nat \<Rightarrow> 'w \<Rightarrow> goerr option \<times> 'w"
  Remove_file :: "string \<Rightarrow> 'w \<Rightarrow> goerr option \<times> 'w"
  Listen :: "string \<Rightarrow> 'w \<Rightarrow> nat result \<times> 'w"
  Listener_Close :: "nat \<Rightarrow> 'w \<Rightarrow> goerr option \<times> 'w"
  Chown :: "string \<Rightarrow> int \<Rightarrow> 'w \<Rightarrow> goerr option \<times> 'w"
  Chmod :: "string \<Rightarrow> file_mode \<Rightarrow> 'w \<Rightarrow> goerr option \<times> 'w"
  Quote :: "string \<Rightarrow> string"

text \<open>\<^verbatim>\<open>strconv.Atoi\<close>: an optional sign, then decimal digits, within 64 bits.\<close>

fun Atoi_digits :: "nat \<Rightarrow> string \<Rightarrow> nat option" where
  "Atoi_digits n [] = Some n"
| "Atoi_digits n (c # cs) = (if is_digit c then Atoi_digits (10 * n + (of_char c - 48)) cs else None)"

definition Atoi :: "string \<Rightarrow> int option" where
  "Atoi s =
     (let neg = prefix ''-'' s; body = (if prefix ''-'' s \<or> prefix ''+'' s then tl s else s)
      in if body = [] then None
         else case Atoi_digits 0 body of
             None \<Rightarrow> None
           | Some n \<Rightarrow>
               (let i = (if neg then - int n else int n)
                in if - (2 ^ 63) \<le> i \<and> i < 2 ^ 63 then Some i else None))"

text \<open>The verb \<^verbatim>\<open>%04o\<close>.\<close>

fun octal_text :: "nat \<Rightarrow> string" where
  "octal_text n = (if n < 8 then [char_of (48 + n)] else octal_text (n div 8) @ [char_of (48 + n mod 8)])"

declare octal_text.simps [simp del]

definition octal4 :: "nat \<Rightarrow> string" where
  "octal4 n = replicate (4 - length (octal_text n)) CHR ''0'' @ octal_text n"

text \<open>\<^verbatim>\<open>filepath.Dir\<close>: everything up to the last separator, cleaned.\<close>

definition Dir :: "string \<Rightarrow> string" where
  "Dir path = Clean (rev (dropWhile (\<lambda>c. c \<noteq> CHR ''/'') (rev path)))"

section \<open>Stale sockets\<close>

definition isActiveUnixSocket :: "'w unix_api \<Rightarrow> string \<Rightarrow> 'w \<Rightarrow> bool result \<times> 'w" where
  "isActiveUnixSocket api path w =
     (case Dial api path w of
        (Inr conn, w1) \<Rightarrow> (Inr True, snd (Conn_Close api conn w1))
      | (Inl err, w1) \<Rightarrow>
          if errors_Is err ConnRefused \<or> errors_Is err NoEnt then (Inr False, w1)
          else (Inl (Wrapf (''failed to probe control socket '' @ path @ '': '') err ''''), w1))"

definition removeStaleSocket :: "'w unix_api \<Rightarrow> string \<Rightarrow> 'w \<Rightarrow> goerr option \<times> 'w" where
  "removeStaleSocket api path w =
     (case Stat api path w of
        (Inr is_socket, w1) \<Rightarrow>
          if \<not> is_socket
          then (Some (New (''control socket path exists and is not a socket: '' @ path)), w1)
          else (case isActiveUnixSocket api path w1 of
              (Inl probeErr, w2) \<Rightarrow> (Some probeErr, w2)
            | (Inr active, w2) \<Rightarrow>
                if active then (Some (New (''control socket already in use: '' @ path)), w2)
                else (case Remove_file api path w2 of
                    (Some err, w3) \<Rightarrow> (Some (Wrapf ''failed to remove stale control socket: '' err ''''), w3)
                  | (None, w3) \<Rightarrow> (None, w3)))
      | (Inl err, w1) \<Rightarrow>
          if errors_Is err NotExist then (None, w1)
          else (Some (Wrapf ''failed to stat control socket path: '' err ''''), w1))"

definition resolveSocketGroup :: "'w unix_api \<Rightarrow> string \<Rightarrow> 'w \<Rightarrow> int result \<times> 'w" where
  "resolveSocketGroup api groupName w =
     (let groupName = TrimSpace groupName
      in if groupName = '''' then (Inr (-1), w)
         else (case LookupGroup api groupName w of
             (Inl err, w1) \<Rightarrow>
               (Inl (Wrapf (''failed to resolve control socket group '' @ groupName @ '': '') err ''''), w1)
           | (Inr grp_Gid, w1) \<Rightarrow>
               (let bad = Inl (New (''invalid GID '' @ Quote api grp_Gid @ '' for control socket group '' @ groupName))
                in case Atoi grp_Gid of
                     None \<Rightarrow> (bad, w1)
                   | Some gid \<Rightarrow> if gid < 0 then (bad, w1) else (Inr gid, w1))))"

section \<open>Construction\<close>

text \<open>The checks of the arguments, in their order.\<close>

definition server_args_error :: "string \<Rightarrow> duration \<Rightarrow> file_mode \<Rightarrow> goerr option" where
  "server_args_error socketPath timeout socketMode =
     (if socketPath = '''' then Some (New ''control socket path is empty'')
      else if \<not> IsAbs socketPath then Some (New (''control socket path must be absolute: '' @ socketPath))
      else if timeout \<le> 0 then Some (New ''control timeout must be positive'')
      else if socketMode = 0 \<or> socketMode AND perm_bits \<noteq> socketMode
      then Some (New (''invalid control socket mode: '' @ octal4 (unat socketMode)))
      else None)"

record server =
  sv_listener :: nat
  sv_socketPath :: string
  sv_timeout :: duration

text \<open>What undoes a bound socket that cannot be protected.\<close>

definition abandon_listener :: "'w unix_api \<Rightarrow> nat \<Rightarrow> string \<Rightarrow> 'w \<Rightarrow> 'w" where
  "abandon_listener api listener socketPath w =
     snd (Remove_file api socketPath (snd (Listener_Close api listener w)))"

definition protect_socket ::
  "'w unix_api \<Rightarrow> nat \<Rightarrow> string \<Rightarrow> file_mode \<Rightarrow> int \<Rightarrow> string \<Rightarrow> 'w \<Rightarrow> goerr option \<times> 'w" where
  "protect_socket api listener socketPath socketMode socketGID socketGroup w =
     (case (if 0 \<le> socketGID then Chown api socketPath socketGID w else (None, w)) of
        (Some err, w1) \<Rightarrow>
          (Some (Wrapf (''failed to set control socket group '' @ socketGroup @ '': '') err ''''),
           abandon_listener api listener socketPath w1)
      | (None, w1) \<Rightarrow>
          (case Chmod api socketPath socketMode w1 of
             (Some err, w2) \<Rightarrow>
               (Some (Wrapf ''failed to set control socket permissions: '' err ''''),
                abandon_listener api listener socketPath w2)
           | (None, w2) \<Rightarrow> (None, w2)))"

definition NewUnixServer ::
  "'w unix_api \<Rightarrow> string \<Rightarrow> duration \<Rightarrow> file_mode \<Rightarrow> string \<Rightarrow> 'w \<Rightarrow> server result \<times> 'w" where
  "NewUnixServer api socketPath timeout socketMode socketGroup w =
     (case server_args_error socketPath timeout socketMode of
        Some err \<Rightarrow> (Inl err, w)
      | None \<Rightarrow>
     (case resolveSocketGroup api socketGroup w of
        (Inl err, w1) \<Rightarrow> (Inl err, w1)
      | (Inr socketGID, w1) \<Rightarrow>
     (case MkdirAll api (Dir socketPath) 0x1C0 w1 of
        (Some err, w2) \<Rightarrow> (Inl (Wrapf ''failed to create control socket directory: '' err ''''), w2)
      | (None, w2) \<Rightarrow>
     (case removeStaleSocket api socketPath w2 of
        (Some err, w3) \<Rightarrow> (Inl err, w3)
      | (None, w3) \<Rightarrow>
     (case Listen api socketPath w3 of
        (Inl err, w4) \<Rightarrow> (Inl (Wrapf (''failed to bind control socket '' @ socketPath @ '': '') err ''''), w4)
      | (Inr listener, w4) \<Rightarrow>
     (case protect_socket api listener socketPath socketMode socketGID socketGroup w4 of
        (Some err, w5) \<Rightarrow> (Inl err, w5)
      | (None, w5) \<Rightarrow>
          (Inr \<lparr>sv_listener = listener, sv_socketPath = socketPath, sv_timeout = timeout\<rparr>, w5)))))))"

section \<open>Serving\<close>

text \<open>
  \<open>serve\<close> is \<^verbatim>\<open>http.Server.Serve\<close> with the goroutine that shuts it down: it returns a
  non-nil error. Failing to remove the socket file is only logged.
\<close>

definition Server_Run :: "'w unix_api \<Rightarrow> server \<Rightarrow> (nat \<Rightarrow> 'w \<Rightarrow> goerr \<times> 'w) \<Rightarrow> 'w \<Rightarrow> goerr option \<times> 'w" where
  "Server_Run api sv serve w =
     (case serve (sv_listener sv) w of
        (err, w1) \<Rightarrow>
          let w2 = snd (Remove_file api (sv_socketPath sv) w1)
          in if errors_Is err ServerClosed then (None, w2) else (Some err, w2))"

text \<open>\<open>deadline\<close> is the deadline of the request's context, if it has one.\<close>

definition withRequestTimeout ::
  "(gotime option \<Rightarrow> 'r \<Rightarrow> 'a) \<Rightarrow> duration \<Rightarrow> gotime \<Rightarrow> gotime option \<Rightarrow> 'r \<Rightarrow> 'a" where
  "withRequestTimeout next_handler timeout now deadline req =
     next_handler (Some (case deadline of None \<Rightarrow> now + timeout | Some d \<Rightarrow> min d (now + timeout))) req"

section \<open>Descriptors and removals\<close>

text \<open>
  What the calls do to the descriptors \<open>opn w\<close>: \<^verbatim>\<open>net.Dial\<close> and \<^verbatim>\<open>net.Listen\<close> open a fresh
  one or none, the two \<^verbatim>\<open>Close\<close> release theirs.
\<close>

definition unix_laws :: "'w unix_api \<Rightarrow> ('w \<Rightarrow> nat set) \<Rightarrow> bool" where
  "unix_laws api opn \<longleftrightarrow>
     (\<forall>g. keeps_open opn (LookupGroup api g)) \<and> (\<forall>d m. keeps_open opn (MkdirAll api d m))
     \<and> (\<forall>p. keeps_open opn (Stat api p)) \<and> (\<forall>p. opens_one opn (Dial api p))
     \<and> (\<forall>c w. opn (snd (Conn_Close api c w)) = opn w - {c}) \<and> (\<forall>p. keeps_open opn (Remove_file api p))
     \<and> (\<forall>p. opens_one opn (Listen api p)) \<and> (\<forall>l w. opn (snd (Listener_Close api l w)) = opn w - {l})
     \<and> (\<forall>p g. keeps_open opn (Chown api p g)) \<and> (\<forall>p m. keeps_open opn (Chmod api p m))"

lemma unix_lawsD:
  assumes "unix_laws api opn"
  shows "LookupGroup api g w = (rl, w') \<Longrightarrow> opn w' = opn w"
    and "MkdirAll api d m w = (r, w') \<Longrightarrow> opn w' = opn w"
    and "Stat api p w = (rs, w') \<Longrightarrow> opn w' = opn w"
    and "Dial api p w = (Inr c, w') \<Longrightarrow> c \<notin> opn w \<and> opn w' = insert c (opn w)"
    and "Dial api p w = (Inl e, w') \<Longrightarrow> opn w' = opn w"
    and "opn (snd (Conn_Close api c w)) = opn w - {c}"
    and "Remove_file api p w = (r, w') \<Longrightarrow> opn w' = opn w"
    and "Listen api p w = (Inr l, w') \<Longrightarrow> l \<notin> opn w \<and> opn w' = insert l (opn w)"
    and "Listen api p w = (Inl e, w') \<Longrightarrow> opn w' = opn w"
    and "opn (snd (Listener_Close api l w)) = opn w - {l}"
    and "Chown api p i w = (r, w') \<Longrightarrow> opn w' = opn w"
    and "Chmod api p m w = (r, w') \<Longrightarrow> opn w' = opn w"
  using assms unfolding unix_laws_def keeps_open_def opens_one_def by metis+

lemma isActive_opn:
  assumes "unix_laws api opn" and "isActiveUnixSocket api path w = (r, w')"
  shows "opn w' = opn w"
  using assms(2) unix_lawsD(4,5,6) [OF assms(1)]
  by (fastforce simp: isActiveUnixSocket_def split: prod.splits sum.splits if_splits)

lemma removeStale_opn:
  assumes laws: "unix_laws api opn" and "removeStaleSocket api path w = (r, w')"
  shows "opn w' = opn w"
proof -
  obtain s w1 where s: "Stat api path w = (s, w1)" by fastforce
  obtain a w2 where a: "isActiveUnixSocket api path w1 = (a, w2)" by fastforce
  obtain m w3 where m: "Remove_file api path w2 = (m, w3)" by fastforce
  have "opn w1 = opn w" "opn w2 = opn w1" "opn w3 = opn w2"
    using unix_lawsD(3) [OF laws s] isActive_opn [OF laws a] unix_lawsD(7) [OF laws m] by simp_all
  then show ?thesis using assms(2) s a m
    by (auto simp: removeStaleSocket_def split: sum.splits if_splits option.splits)
qed

lemma resolveSocketGroup_opn:
  "unix_laws api opn \<Longrightarrow> resolveSocketGroup api g w = (r, w') \<Longrightarrow> opn w' = opn w"
  using unix_lawsD(1) by (fastforce simp: resolveSocketGroup_def Let_def split: prod.splits sum.splits option.splits if_splits)

lemma protect_socket_opn:
  assumes laws: "unix_laws api opn" and "protect_socket api l p m g grp w = (r, w')"
  shows "opn w' = (if r = None then opn w else opn w - {l})"
proof -
  have ab: "opn (abandon_listener api l p v) = opn v - {l}" for v
    using unix_lawsD(7) [OF laws, of p "snd (Listener_Close api l v)"] unix_lawsD(10) [OF laws, of l v]
    by (cases "Remove_file api p (snd (Listener_Close api l v))") (simp add: abandon_listener_def)
  obtain c w1 where c: "(if 0 \<le> g then Chown api p g w else (None, w)) = (c, w1)" by fastforce
  obtain d w2 where d: "Chmod api p m w1 = (d, w2)" by fastforce
  have "opn w1 = opn w" using c unix_lawsD(11) [OF laws, of p g w c w1] by (auto split: if_splits)
  moreover have "opn w2 = opn w1" using unix_lawsD(12) [OF laws d] .
  ultimately show ?thesis using assms(2) ab unfolding protect_socket_def c prod.case d
    by (cases c; cases d) auto
qed

lemma NewUnixServer_opn:
  assumes laws: "unix_laws api opn" and run: "NewUnixServer api p t m g w = (r, w')"
  shows "r = Inl e \<Longrightarrow> opn w' = opn w"
    and "r = Inr sv \<Longrightarrow> sv_listener sv \<notin> opn w \<and> opn w' = insert (sv_listener sv) (opn w)"
proof -
  have both: "(\<forall>e. r = Inl e \<longrightarrow> opn w' = opn w)
     \<and> (\<forall>sv. r = Inr sv \<longrightarrow> sv_listener sv \<notin> opn w \<and> opn w' = insert (sv_listener sv) (opn w))"
  proof (cases "server_args_error p t m")
    case None
    obtain gr w1 where gr: "resolveSocketGroup api g w = (gr, w1)" by fastforce
    have o1: "opn w1 = opn w" using resolveSocketGroup_opn [OF laws gr] .
    show ?thesis
    proof (cases gr)
      case (Inr gid)
      obtain k w2 where k: "MkdirAll api (Dir p) 0x1C0 w1 = (k, w2)" by fastforce
      obtain s w3 where s: "removeStaleSocket api p w2 = (s, w3)" by fastforce
      obtain l w4 where l: "Listen api p w3 = (l, w4)" by fastforce
      have o3: "opn w2 = opn w" "opn w3 = opn w"
        using unix_lawsD(2) [OF laws k] removeStale_opn [OF laws s] o1 by simp_all
      show ?thesis
      proof (cases "k = None \<and> s = None \<and> (\<exists>fd. l = Inr fd)")
        case True
        then obtain fd where fd: "l = Inr fd" by blast
        obtain q w5 where q: "protect_socket api fd p m gid g w4 = (q, w5)" by fastforce
        have fresh: "fd \<notin> opn w" "opn w4 = insert fd (opn w)"
          using l fd unix_lawsD(8) [OF laws, of p w3 fd w4] o3 by auto
        have run': "(r, w') = (case q of Some err \<Rightarrow> (Inl err, w5)
            | None \<Rightarrow> (Inr \<lparr>sv_listener = fd, sv_socketPath = p, sv_timeout = t\<rparr>, w5))"
          using run None gr Inr k s l fd q True by (simp add: NewUnixServer_def)
        have "opn w5 = (if q = None then insert fd (opn w) else opn w)"
          using protect_socket_opn [OF laws q] fresh by auto
        with run' fresh(1) show ?thesis by (cases q) simp_all
      next
        case False
        then consider (mkdir) e where "k = Some e" | (stale) e where "k = None" "s = Some e"
          | (bind) e where "k = None" "s = None" "l = Inl e" by (cases k; cases s; cases l) auto
        then have "(\<exists>e. r = Inl e) \<and> opn w' = opn w"
        proof cases
          case (mkdir e)
          with run None gr Inr k have "(r, w') = (Inl (Wrapf ''failed to create control socket directory: '' e ''''), w2)"
            by (simp add: NewUnixServer_def)
          with o3 show ?thesis by simp
        next
          case (stale e)
          with run None gr Inr k s have "(r, w') = (Inl e, w3)" by (simp add: NewUnixServer_def)
          with o3 show ?thesis by simp
        next
          case (bind e)
          with run None gr Inr k s l have "(r, w') = (Inl (Wrapf (''failed to bind control socket '' @ p @ '': '') e ''''), w4)"
            by (simp add: NewUnixServer_def)
          moreover from bind(3) l unix_lawsD(9) [OF laws, of p w3 e w4] have "opn w4 = opn w" using o3 by simp
          ultimately show ?thesis by simp
        qed
        then show ?thesis by auto
      qed
    qed (use run None gr o1 in \<open>auto simp: NewUnixServer_def\<close>)
  qed (use run in \<open>auto simp: NewUnixServer_def\<close>)
  then show "r = Inl e \<Longrightarrow> opn w' = opn w"
    and "r = Inr sv \<Longrightarrow> sv_listener sv \<notin> opn w \<and> opn w' = insert (sv_listener sv) (opn w)" by blast+
qed

text \<open>The arguments a server was built with.\<close>

lemma NewUnixServer_args:
  assumes "NewUnixServer api p t m g w = (Inr sv, w')"
  shows "server_args_error p t m = None" and "sv_socketPath sv = p" and "sv_timeout sv = t"
  using assms
  by (auto simp: NewUnixServer_def split: option.splits prod.splits sum.splits)

text \<open>The file at the path is deleted only when it is a socket that refuses connections.\<close>

lemma removeStaleSocket_keeps:
  assumes "fst (Stat api path w) \<noteq> Inr True \<or> fst (isActiveUnixSocket api path (snd (Stat api path w))) \<noteq> Inr False"
  shows "removeStaleSocket (api\<lparr>Remove_file := f\<rparr>) path w = removeStaleSocket api path w"
proof -
  have sel: "Dial (api\<lparr>Remove_file := f\<rparr>) = Dial api" "Conn_Close (api\<lparr>Remove_file := f\<rparr>) = Conn_Close api"
    "Stat (api\<lparr>Remove_file := f\<rparr>) = Stat api" by simp_all
  have same: "isActiveUnixSocket (api\<lparr>Remove_file := f\<rparr>) path v = isActiveUnixSocket api path v" for v
    unfolding isActiveUnixSocket_def sel ..
  show ?thesis using assms unfolding removeStaleSocket_def same sel
    by (auto split: prod.splits sum.splits if_splits)
qed

end
