(* ===== verification/RelaySteps.thy ===== *)
theory RelaySteps
  imports Coordinator
begin

text \<open>
  \<^verbatim>\<open>internal/relay/relay.go\<close>, the goroutines together. A step of the relay is one turn of
  one goroutine: the coordinator (intents, the debounce timer, each path of a reconcile
  pass, each stage of a teardown), the broadcast loop (a packet taken, one destination
  visited), the send worker or a receiver of an instance, the cancellation of the relay's
  context, the clock. The interleaving, the order of map iterations and what the network
  delivers are left open, so an invariant of the reachable states holds for every schedule.
  The invariants: packets are never queued for the namespace they came from and never
  altered, queues are bounded, every live instance is owned by the coordinator, the
  pending sets are those of the accepted intents, the timer is armed while an intent waits.
\<close>

section \<open>Steps\<close>

text \<open>
  \<open>continue pc r\<close> puts the coordinator at \<open>pc\<close>. A goroutine of an instance may act until
  \<open>wg.Wait()\<close> has returned, also after its context is done: its \<^verbatim>\<open>select\<close> may prefer another
  ready case, and a receiver notices the context only at the top of its loop.
\<close>

definition continue :: "coord_pc \<Rightarrow> 'w relay \<Rightarrow> 'w relay" where
  "continue pc r = r\<lparr>c_pc := pc\<rparr>"

definition drop_held :: "nat \<Rightarrow> nsInstance \<Rightarrow> nat \<Rightarrow> 'w relay \<Rightarrow> 'w relay" where
  "drop_held i inst k r = set_inst i (inst\<lparr>ni_holding := (ni_holding inst)(k := None)\<rparr>) r"

inductive relay_step :: "'w relay_env \<Rightarrow> 'w relay \<Rightarrow> 'w relay \<Rightarrow> bool" for env :: "'w relay_env" where
  accept: "c_pc r = CSelect \<Longrightarrow> relay_step env r (coord_accept op p r)"
| fire: "c_pc r = CSelect \<Longrightarrow> c_timer r = Some d \<Longrightarrow> d \<le> r_now r \<Longrightarrow>
    enumerates ds (c_pendingDel r) \<Longrightarrow> enumerates as (c_pendingAdd r) \<Longrightarrow>
    relay_step env r (coord_fire ds as r)"
| del_absent: "c_pc r = CReconcile (p # ds) as nxt \<Longrightarrow> nxt p = None \<Longrightarrow>
    relay_step env r (continue (CReconcile ds as nxt) r)"
| del_cancel: "c_pc r = CReconcile (p # ds) as nxt \<Longrightarrow> nxt p = Some i \<Longrightarrow>
    relay_step env r (continue (CCancelled i (CReconcile ds as (nxt(p := None)))) (coord_cancel i r))"
| td_close: "c_pc r = CCancelled i pc \<Longrightarrow>
    relay_step env r (continue (CClosed i pc) (coord_close env i r))"
| td_join: "c_pc r = CClosed i pc \<Longrightarrow>
    relay_step env r (continue pc (coord_join env i r))"
| add: "c_pc r = CReconcile [] (p # as) nxt \<Longrightarrow> reconcile_add env p (nxt, r) = (nxt', r') \<Longrightarrow>
    relay_step env r (continue (CReconcile [] as nxt') r')"
| store: "c_pc r = CReconcile [] [] nxt \<Longrightarrow> relay_step env r (reconcile_store nxt r)"
| stop: "c_pc r = CSelect \<Longrightarrow> r_ctxDone r \<Longrightarrow> enumerates ps (dom (r_snap r)) \<Longrightarrow>
    relay_step env r (continue (CStopping (map (\<lambda>p. the (r_snap r p)) ps)) (r\<lparr>c_timer := None\<rparr>))"
| stop_cancel: "c_pc r = CStopping (i # is) \<Longrightarrow>
    relay_step env r (continue (CCancelled i (CStopping is)) (coord_cancel i r))"
| take: "b_pc r = BSelect \<Longrightarrow> r_broadcastCh r \<noteq> [] \<Longrightarrow> enumerates order (dom (r_snap r)) \<Longrightarrow>
    relay_step env r (bcast_take order r)"
| fan: "b_pc r = BFan pkt ((p, i) # dests) \<Longrightarrow>
    relay_step env r ((fanout_one pkt p i r)\<lparr>b_pc := BFan pkt dests\<rparr>)"
| fan_end: "b_pc r = BFan pkt [] \<Longrightarrow> relay_step env r (r\<lparr>b_pc := BSelect\<rparr>)"
| bcast_stop: "b_pc r \<noteq> BStopped \<Longrightarrow> r_ctxDone r \<Longrightarrow> relay_step env r (r\<lparr>b_pc := BStopped\<rparr>)"
| worker: "r_heap r i = Some inst \<Longrightarrow> \<not> ni_joined inst \<Longrightarrow> ni_sendCh inst \<noteq> [] \<Longrightarrow>
    worker_take env i r = Some r' \<Longrightarrow> relay_step env r r'"
| read: "r_heap r i = Some inst \<Longrightarrow> \<not> ni_joined inst \<Longrightarrow> k < length (ni_sockets inst) \<Longrightarrow>
    ni_holding inst k = None \<Longrightarrow> ev_recent ev = recentTx (ni_sockets inst ! k) \<Longrightarrow> ev_now ev = r_now r \<Longrightarrow>
    ReadFrom_loop [ev] = Some (Inr x) \<Longrightarrow>
    relay_step env r (receive_read i inst k (received_packet (ni_sockets inst ! k) (ni_path inst) x) r)"
| push: "r_heap r i = Some inst \<Longrightarrow> \<not> ni_joined inst \<Longrightarrow> ni_holding inst k = Some pkt \<Longrightarrow>
    length (r_broadcastCh r) < ChannelBuffer \<Longrightarrow> relay_step env r (receive_push i inst k pkt r)"
| quit: "r_heap r i = Some inst \<Longrightarrow> \<not> ni_joined inst \<Longrightarrow> ni_holding inst k = Some pkt \<Longrightarrow>
    inst_ctx_done r inst \<Longrightarrow> relay_step env r (drop_held i inst k r)"
| cancel: "relay_step env r (r\<lparr>r_ctxDone := True\<rparr>)"
| tick: "r_now r \<le> t \<Longrightarrow> relay_step env r (r\<lparr>r_now := t\<rparr>)"

definition reachable :: "'w relay_env \<Rightarrow> udp_addr list \<Rightarrow> gotime \<Rightarrow> 'w \<Rightarrow> 'w relay \<Rightarrow> bool" where
  "reachable env groups t0 w0 r \<longleftrightarrow> (relay_step env)\<^sup>*\<^sup>* (relay_New groups t0 w0) r"

lemma reachable_New: "reachable env groups t0 w0 (relay_New groups t0 w0)"
  by (simp add: reachable_def)

lemma reachable_step: "reachable env groups t0 w0 r \<Longrightarrow> relay_step env r r' \<Longrightarrow> reachable env groups t0 w0 r'"
  unfolding reachable_def by simp

lemma reachable_invariant [consumes 1, case_names init step]:
  assumes "reachable env groups t0 w0 r"
    and "P (relay_New groups t0 w0)"
    and "\<And>r r'. reachable env groups t0 w0 r \<Longrightarrow> P r \<Longrightarrow> relay_step env r r' \<Longrightarrow> P r'"
  shows "P r"
proof -
  have "(relay_step env)\<^sup>*\<^sup>* (relay_New groups t0 w0) r" using assms(1) by (simp add: reachable_def)
  then show ?thesis
  proof (induction rule: rtranclp_induct)
    case base
    show ?case by (rule assms(2))
  next
    case (step y z)
    then show ?case using assms(3) [of y z] by (simp add: reachable_def)
  qed
qed

text \<open>\<^verbatim>\<open>Run\<close> returns when both of its goroutines have returned.\<close>

definition run_returned :: "'w relay \<Rightarrow> bool" where
  "run_returned r \<longleftrightarrow> c_pc r = CStopping [] \<and> b_pc r = BStopped"

section \<open>What the operations leave alone\<close>

lemma bcast_take_eq:
  assumes "r_broadcastCh r = pkt # rest" and "mw_Process (r_now r) (r_middleware r) pkt = (m, pkt')"
  shows "bcast_take order r =
     (let r' = r\<lparr>r_broadcastCh := rest, r_middleware := m, h_processed := h_processed r @ [(r_now r, pkt)]\<rparr>
      in if Data pkt' = None then r'
         else r'\<lparr>b_pc := BFan pkt' (map (\<lambda>p. (p, the (r_snap r p))) order),
                 h_fanout := h_fanout r @ [(r_now r, pkt')]\<rparr>)"
  using assms by (simp add: bcast_take_def Let_def)

lemma bcast_take_frame [simp]:
  "r_heap (bcast_take order r) = r_heap r" "r_fresh (bcast_take order r) = r_fresh r"
  "r_snap (bcast_take order r) = r_snap r" "c_pc (bcast_take order r) = c_pc r"
  "c_timer (bcast_take order r) = c_timer r" "h_intents (bcast_take order r) = h_intents r"
  "c_pendingAdd (bcast_take order r) = c_pendingAdd r" "c_pendingDel (bcast_take order r) = c_pendingDel r"
  "r_now (bcast_take order r) = r_now r" "h_received (bcast_take order r) = h_received r"
  "h_written (bcast_take order r) = h_written r" "r_ctxDone (bcast_take order r) = r_ctxDone r"
  "r_world (bcast_take order r) = r_world r" "r_groups (bcast_take order r) = r_groups r"
  by (auto simp: bcast_take_def Let_def split: list.split prod.split)

lemma fanout_one_frame [simp]:
  "r_fresh (fanout_one pkt p i r) = r_fresh r" "r_snap (fanout_one pkt p i r) = r_snap r"
  "c_pc (fanout_one pkt p i r) = c_pc r" "c_timer (fanout_one pkt p i r) = c_timer r"
  "h_intents (fanout_one pkt p i r) = h_intents r" "c_pendingAdd (fanout_one pkt p i r) = c_pendingAdd r"
  "c_pendingDel (fanout_one pkt p i r) = c_pendingDel r" "r_now (fanout_one pkt p i r) = r_now r"
  "h_received (fanout_one pkt p i r) = h_received r" "h_written (fanout_one pkt p i r) = h_written r"
  "h_fanout (fanout_one pkt p i r) = h_fanout r" "h_processed (fanout_one pkt p i r) = h_processed r"
  "r_middleware (fanout_one pkt p i r) = r_middleware r"
  "r_broadcastCh (fanout_one pkt p i r) = r_broadcastCh r" "b_pc (fanout_one pkt p i r) = b_pc r"
  "r_world (fanout_one pkt p i r) = r_world r" "r_groups (fanout_one pkt p i r) = r_groups r"
  by (auto simp: fanout_one_def set_inst_def split: option.split)

lemma teardown_stage_frame [simp]:
  "r_fresh (coord_cancel i r) = r_fresh r" "r_snap (coord_cancel i r) = r_snap r"
  "c_pc (coord_cancel i r) = c_pc r" "c_timer (coord_cancel i r) = c_timer r"
  "r_now (coord_cancel i r) = r_now r" "b_pc (coord_cancel i r) = b_pc r"
  "r_fresh (coord_close env i r) = r_fresh r" "r_snap (coord_close env i r) = r_snap r"
  "c_pc (coord_close env i r) = c_pc r" "c_timer (coord_close env i r) = c_timer r"
  "r_now (coord_close env i r) = r_now r" "b_pc (coord_close env i r) = b_pc r"
  "r_heap (coord_close env i r) = r_heap r"
  "r_fresh (coord_join env i r) = r_fresh r" "r_snap (coord_join env i r) = r_snap r"
  "c_pc (coord_join env i r) = c_pc r" "c_timer (coord_join env i r) = c_timer r"
  "r_now (coord_join env i r) = r_now r" "b_pc (coord_join env i r) = b_pc r"
  by (auto simp: coord_cancel_def coord_close_def coord_join_def join_inst_def set_inst_def split: option.split)

lemma coord_cancel_heap:
  "r_heap (coord_cancel i r) = (case r_heap r i of None \<Rightarrow> r_heap r | Some inst \<Rightarrow> (r_heap r)(i \<mapsto> cancel_inst inst))"
  by (auto simp: coord_cancel_def set_inst_def split: option.split)

lemma coord_join_heap:
  "r_heap (coord_join env i r) =
     (case r_heap r i of None \<Rightarrow> r_heap r | Some inst \<Rightarrow> (r_heap r)(i \<mapsto> inst\<lparr>ni_joined := True\<rparr>))"
  by (auto simp: coord_join_def join_inst_def set_inst_def split: option.split)

lemma fanout_one_heap:
  assumes "r_heap r i = Some inst"
  shows "r_heap (fanout_one pkt p i r) =
     (if p \<noteq> SourcePath pkt \<and> \<not> inst_ctx_done r inst \<and> length (ni_sendCh inst) < ChannelBuffer
      then (r_heap r)(i \<mapsto> inst\<lparr>ni_sendCh := ni_sendCh inst @ [pkt]\<rparr>) else r_heap r)"
  using assms by (auto simp: fanout_one_def set_inst_def)

text \<open>A turn of the send worker: the head of the queue is gone, and written if at all.\<close>

lemma worker_take_cases:
  assumes "worker_take env i r = Some r'" and "r_heap r i = Some inst" and "ni_sendCh inst = pkt # rest"
  obtains (skip) "r' = set_inst i (inst\<lparr>ni_sendCh := rest\<rparr>) r"
  | (wrote) k res sock w where "ni_socketsByGroup inst (groupKeyFromUDPAddr (Group pkt)) = Some k"
      "env_WriteToGroup env (ni_sockets inst ! k) (bytes_of (Data pkt)) (Source pkt) (TTL pkt) (r_world r) = Some (res, sock, w)"
      "r' = set_inst i (inst\<lparr>ni_sendCh := rest, ni_sockets := (ni_sockets inst)[k := sock]\<rparr>)
              (r\<lparr>r_world := w, h_written := insert (ni_path inst, pkt) (h_written r)\<rparr>)"
  using assms by (auto simp: worker_take_def Let_def split: option.splits prod.splits)

text \<open>What every operation of a goroutine leaves alone, in one bundle.\<close>

lemmas step_ops = continue_def coord_fire_def reconcile_store_def receive_read_def receive_push_def
  drop_held_def set_inst_def

section \<open>Pointers\<close>

text \<open>
  Every instance the maps and the broadcast loop hold is on the heap and carries the path
  it is held under.
\<close>

definition points :: "(nat \<rightharpoonup> nsInstance) \<Rightarrow> (string \<times> nat) set \<Rightarrow> bool" where
  "points heap S \<longleftrightarrow> (\<forall>(p, i) \<in> S. \<exists>inst. heap i = Some inst \<and> ni_path inst = p)"

fun pc_refs :: "coord_pc \<Rightarrow> (string \<times> nat) set" where
  "pc_refs (CReconcile ds as nxt) = Map.graph nxt"
| "pc_refs (CCancelled i pc) = pc_refs pc"
| "pc_refs (CClosed i pc) = pc_refs pc"
| "pc_refs _ = {}"

definition bcast_refs :: "bcast_pc \<Rightarrow> (string \<times> nat) set" where
  "bcast_refs pc = (case pc of BFan pkt dests \<Rightarrow> set dests | _ \<Rightarrow> {})"

definition refs :: "'w relay \<Rightarrow> (string \<times> nat) set" where
  "refs r = Map.graph (r_snap r) \<union> pc_refs (c_pc r) \<union> bcast_refs (b_pc r)"

definition shape_inv :: "'w relay \<Rightarrow> bool" where
  "shape_inv r \<longleftrightarrow> dom (r_heap r) \<subseteq> {..< r_fresh r} \<and> points (r_heap r) (refs r)"

text \<open>The paths of the heap persist.\<close>

definition paths_kept :: "(nat \<rightharpoonup> nsInstance) \<Rightarrow> (nat \<rightharpoonup> nsInstance) \<Rightarrow> bool" where
  "paths_kept h h' \<longleftrightarrow> (\<forall>i inst. h i = Some inst \<longrightarrow> (\<exists>inst'. h' i = Some inst' \<and> ni_path inst' = ni_path inst))"

lemma points_mono:
  assumes "points h S" and "paths_kept h h'" and "T \<subseteq> S"
  shows "points h' T"
  unfolding points_def
proof (intro ballI, clarify)
  fix p i assume "(p, i) \<in> T"
  with assms(1,3) obtain inst where "h i = Some inst" "ni_path inst = p" unfolding points_def by blast
  with assms(2) show "\<exists>inst. h' i = Some inst \<and> ni_path inst = p" unfolding paths_kept_def by blast
qed

lemma points_Un [simp]: "points h (S \<union> T) \<longleftrightarrow> points h S \<and> points h T"
  unfolding points_def by blast

lemma points_subset: "points h S \<Longrightarrow> T \<subseteq> S \<Longrightarrow> points h T"
  unfolding points_def by blast

lemma pointsD: "points h S \<Longrightarrow> (p, i) \<in> S \<Longrightarrow> \<exists>inst. h i = Some inst \<and> ni_path inst = p"
  unfolding points_def by blast

lemma paths_kept_refl [simp]: "paths_kept h h"
  by (simp add: paths_kept_def)

lemma paths_kept_upd:
  "h i = Some inst \<Longrightarrow> ni_path inst' = ni_path inst \<Longrightarrow> paths_kept h (h(i \<mapsto> inst'))"
  by (auto simp: paths_kept_def)

lemma paths_kept_new: "h i = None \<Longrightarrow> paths_kept h (h(i \<mapsto> inst'))"
  by (auto simp: paths_kept_def)

lemma reconcile_add_pc:
  assumes "reconcile_add env p (nxt, r) = (nxt', r')"
  shows "(nxt' = nxt \<and> (r' = r \<or> (\<exists>w. r' = r\<lparr>r_world := w\<rparr>)))
    \<or> (\<exists>inst w. nxt p = None \<and> buildInstance env (r_groups r) p (r_world r) = (Inr inst, w)
          \<and> nxt' = nxt(p \<mapsto> r_fresh r)
          \<and> r' = set_inst (r_fresh r) inst (r\<lparr>r_world := w, r_fresh := Suc (r_fresh r)\<rparr>))"
  by (rule reconcile_add_cases [of nxt p env r]) (use assms in auto)

lemma coord_cancel_paths: "paths_kept (r_heap r) (r_heap (coord_cancel i r))"
  by (auto simp: paths_kept_def coord_cancel_heap cancel_inst_def split: option.split)

lemma coord_join_paths: "paths_kept (r_heap r) (r_heap (coord_join env i r))"
  by (auto simp: paths_kept_def coord_join_heap split: option.split)

lemma fanout_one_paths: "paths_kept (r_heap r) (r_heap (fanout_one pkt p i r))"
  by (auto simp: paths_kept_def fanout_one_def set_inst_def split: option.split)

lemma worker_take_frame:
  assumes "worker_take env i r = Some r'" and "r_heap r i = Some inst" and "ni_sendCh inst \<noteq> []"
  shows "\<exists>ss. r_heap r' = (r_heap r)(i \<mapsto> inst\<lparr>ni_sendCh := tl (ni_sendCh inst), ni_sockets := ss\<rparr>)"
    and "h_written r' \<subseteq> insert (ni_path inst, hd (ni_sendCh inst)) (h_written r)"
    and "r_snap r' = r_snap r" "c_pc r' = c_pc r" "b_pc r' = b_pc r" "r_fresh r' = r_fresh r"
    "c_timer r' = c_timer r" "h_intents r' = h_intents r" "c_pendingAdd r' = c_pendingAdd r"
    "c_pendingDel r' = c_pendingDel r" "r_now r' = r_now r" "h_received r' = h_received r"
    "h_fanout r' = h_fanout r" "h_processed r' = h_processed r" "r_middleware r' = r_middleware r"
    "r_broadcastCh r' = r_broadcastCh r" "r_ctxDone r' = r_ctxDone r" "r_groups r' = r_groups r"
proof -
  obtain pkt rest where q: "ni_sendCh inst = pkt # rest" using assms(3) by (cases "ni_sendCh inst") auto
  note cases = worker_take_cases [OF assms(1,2) q]
  have "\<exists>ss. r_heap r' = (r_heap r)(i \<mapsto> inst\<lparr>ni_sendCh := rest, ni_sockets := ss\<rparr>)"
  proof (rule cases)
    assume "r' = set_inst i (inst\<lparr>ni_sendCh := rest\<rparr>) r"
    then have "r_heap r' = (r_heap r)(i \<mapsto> inst\<lparr>ni_sendCh := rest, ni_sockets := ni_sockets inst\<rparr>)"
      by (simp add: set_inst_def)
    then show ?thesis ..
  qed (auto simp: set_inst_def)
  then show "\<exists>ss. r_heap r' = (r_heap r)(i \<mapsto> inst\<lparr>ni_sendCh := tl (ni_sendCh inst), ni_sockets := ss\<rparr>)"
    by (simp add: q)
  show "h_written r' \<subseteq> insert (ni_path inst, hd (ni_sendCh inst)) (h_written r)"
    by (rule cases) (auto simp: set_inst_def q)
  show "r_snap r' = r_snap r" "c_pc r' = c_pc r" "b_pc r' = b_pc r" "r_fresh r' = r_fresh r"
    "c_timer r' = c_timer r" "h_intents r' = h_intents r" "c_pendingAdd r' = c_pendingAdd r"
    "c_pendingDel r' = c_pendingDel r" "r_now r' = r_now r" "h_received r' = h_received r"
    "h_fanout r' = h_fanout r" "h_processed r' = h_processed r" "r_middleware r' = r_middleware r"
    "r_broadcastCh r' = r_broadcastCh r" "r_ctxDone r' = r_ctxDone r" "r_groups r' = r_groups r"
    by (rule cases; simp add: set_inst_def)+
qed

lemma graph_upd_None_subset: "Map.graph (m(p := None)) \<subseteq> Map.graph m"
  by (auto simp: Map.graph_def split: if_splits)

lemma bcast_take_refs:
  assumes "enumerates order (dom (r_snap r))"
  shows "bcast_refs (b_pc (bcast_take order r)) \<subseteq> bcast_refs (b_pc r) \<union> Map.graph (r_snap r)"
  using enumerates_set [OF assms]
  by (auto simp: bcast_take_def bcast_refs_def Let_def Map.graph_def split: list.split prod.split)

lemma shape_step:
  assumes inv: "shape_inv r" and step: "relay_step env r r'"
  shows "shape_inv r' \<and> paths_kept (r_heap r) (r_heap r')"
proof -
  have dom: "dom (r_heap r) \<subseteq> {..< r_fresh r}" and pts: "points (r_heap r) (refs r)"
    using inv by (simp_all add: shape_inv_def)
  have keep: "shape_inv r' \<and> paths_kept (r_heap r) (r_heap r')"
    if "paths_kept (r_heap r) (r_heap r')" "dom (r_heap r') \<subseteq> {..< r_fresh r'}" "refs r' \<subseteq> refs r" for r'
    using that points_mono [OF pts that(1,3)] by (simp add: shape_inv_def)
  from step show ?thesis
  proof cases
    case (add p as nxt nxt' r1)
    show ?thesis
    proof (cases "\<exists>inst w. nxt p = None \<and> buildInstance env (r_groups r) p (r_world r) = (Inr inst, w)
          \<and> nxt' = nxt(p \<mapsto> r_fresh r)
          \<and> r1 = set_inst (r_fresh r) inst (r\<lparr>r_world := w, r_fresh := Suc (r_fresh r)\<rparr>)")
      case True
      then obtain inst w where b: "buildInstance env (r_groups r) p (r_world r) = (Inr inst, w)"
        "nxt' = nxt(p \<mapsto> r_fresh r)"
        "r1 = set_inst (r_fresh r) inst (r\<lparr>r_world := w, r_fresh := Suc (r_fresh r)\<rparr>)" by blast
      have free: "r_heap r (r_fresh r) = None" using dom by auto
      have path: "ni_path inst = p" using buildInstance_Inr(1) [OF b(1)] .
      have kept: "paths_kept (r_heap r) (r_heap r')"
        unfolding add(1) b(3) step_ops using paths_kept_new [of "r_heap r" "r_fresh r", OF free] by simp
      have "refs r' \<subseteq> refs r \<union> {(p, r_fresh r)}"
        unfolding add(1) b step_ops refs_def add(2) by (auto simp: add(2) Map.graph_def split: if_splits)
      moreover have "points (r_heap r') (refs r)" using points_mono [OF pts kept order_refl] .
      moreover have "points (r_heap r') {(p, r_fresh r)}"
        unfolding add(1) b step_ops by (simp add: points_def path)
      ultimately have "points (r_heap r') (refs r')" using points_subset points_Un by metis
      moreover have "dom (r_heap r') \<subseteq> {..< r_fresh r'}"
        unfolding add(1) b step_ops using dom by (auto simp: less_Suc_eq)
      ultimately show ?thesis using kept by (simp add: shape_inv_def)
    next
      case False
      with reconcile_add_pc [OF add(3)] have "nxt' = nxt" and r1: "r1 = r \<or> (\<exists>w. r1 = r\<lparr>r_world := w\<rparr>)" by blast+
      moreover from r1 have "r_heap r1 = r_heap r" "r_fresh r1 = r_fresh r" "r_snap r1 = r_snap r" "b_pc r1 = b_pc r"
        by auto
      ultimately show ?thesis using dom by (intro keep) (simp_all add: add step_ops refs_def)
    qed
  next
    case (worker i inst)
    note w = worker_take_frame [OF worker(4,1,3)]
    show ?thesis
    proof (rule keep)
      show "paths_kept (r_heap r) (r_heap r')" using w(1) worker(1) by (auto simp: paths_kept_def)
      obtain ss where "r_heap r' = (r_heap r)(i \<mapsto> inst\<lparr>ni_sendCh := tl (ni_sendCh inst), ni_sockets := ss\<rparr>)"
        using w(1) by blast
      moreover have "i \<in> dom (r_heap r)" using worker(1) by blast
      ultimately show "dom (r_heap r') \<subseteq> {..< r_fresh r'}" using dom by (simp add: w(6) subset_iff)
      show "refs r' \<subseteq> refs r" by (simp add: refs_def w)
    qed
  next
    case (take order)
    show ?thesis using bcast_take_refs [OF take(4)] dom
      by (intro keep) (auto simp: take refs_def)
  next
    case (fan pkt p i dests)
    have "dom (r_heap (fanout_one pkt p i r)) \<subseteq> {..< r_fresh r}"
      using dom by (auto simp: fanout_one_def set_inst_def split: option.splits if_splits)
    then show ?thesis using fanout_one_paths [of r pkt p i]
      by (intro keep) (auto simp: fan refs_def bcast_refs_def)
  next
    case (del_cancel p ds as nxt i)
    have "dom (r_heap (coord_cancel i r)) \<subseteq> {..< r_fresh r}"
      using dom by (auto simp: coord_cancel_heap split: option.splits)
    then show ?thesis using coord_cancel_paths [of r i] graph_upd_None_subset [of nxt p]
      by (intro keep) (auto simp: del_cancel continue_def refs_def)
  next
    case (stop_cancel i "is")
    have "dom (r_heap (coord_cancel i r)) \<subseteq> {..< r_fresh r}"
      using dom by (auto simp: coord_cancel_heap split: option.splits)
    then show ?thesis using coord_cancel_paths [of r i]
      by (intro keep) (auto simp: stop_cancel continue_def refs_def)
  next
    case (td_join i pc)
    have "dom (r_heap (coord_join env i r)) \<subseteq> {..< r_fresh r}"
      using dom by (auto simp: coord_join_heap split: option.splits)
    then show ?thesis using coord_join_paths [of r env i]
      by (intro keep) (auto simp: td_join continue_def refs_def)
  qed (intro keep; use dom in \<open>auto simp: step_ops refs_def bcast_refs_def paths_kept_def split: if_splits\<close>)+
qed

lemma shape_inv_New: "shape_inv (relay_New groups t w)"
  by (simp add: shape_inv_def relay_New_def refs_def bcast_refs_def points_def)

lemma reachable_shape: "reachable env groups t0 w0 r \<Longrightarrow> shape_inv r"
proof (induction rule: reachable_invariant)
  case init
  show ?case by (rule shape_inv_New)
next
  case (step r r')
  show ?case using shape_step [OF step(3,2)] ..
qed

section \<open>Packets\<close>

text \<open>
  \<open>F\<close> are the packets the fan-out loop has been given, \<open>R\<close> those the receivers have built:
  a send queue is bounded and holds packets of \<open>F\<close> from other namespaces, a receiver holds
  a packet of its own namespace.
\<close>

definition queue_ok :: "packet set \<Rightarrow> packet set \<Rightarrow> nsInstance \<Rightarrow> bool" where
  "queue_ok F R inst \<longleftrightarrow>
     length (ni_sendCh inst) \<le> ChannelBuffer
     \<and> (\<forall>p \<in> set (ni_sendCh inst). SourcePath p \<noteq> ni_path inst \<and> p \<in> F)
     \<and> (\<forall>k p. ni_holding inst k = Some p \<longrightarrow> SourcePath p = ni_path inst \<and> p \<in> R)"

definition fanned :: "'w relay \<Rightarrow> packet set" where
  "fanned r = snd ` set (h_fanout r)"

definition packet_inv :: "'w relay \<Rightarrow> bool" where
  "packet_inv r \<longleftrightarrow>
     (\<forall>i inst. r_heap r i = Some inst \<longrightarrow> queue_ok (fanned r) (h_received r) inst)
     \<and> length (r_broadcastCh r) \<le> ChannelBuffer \<and> set (r_broadcastCh r) \<subseteq> h_received r
     \<and> fanned r \<subseteq> h_received r \<and> (\<forall>p \<in> h_received r. Data p \<noteq> None)
     \<and> (\<forall>pkt dests. b_pc r = BFan pkt dests \<longrightarrow> pkt \<in> fanned r)
     \<and> (\<forall>path p. (path, p) \<in> h_written r \<longrightarrow> p \<in> fanned r \<and> SourcePath p \<noteq> path)"

lemma packet_invD:
  assumes "packet_inv r"
  shows "r_heap r i = Some inst \<Longrightarrow> queue_ok (fanned r) (h_received r) inst"
    and "length (r_broadcastCh r) \<le> ChannelBuffer" and "set (r_broadcastCh r) \<subseteq> h_received r"
    and "fanned r \<subseteq> h_received r" and "p \<in> h_received r \<Longrightarrow> Data p \<noteq> None"
    and "b_pc r = BFan pkt dests \<Longrightarrow> pkt \<in> fanned r"
    and "(path, p) \<in> h_written r \<Longrightarrow> p \<in> fanned r \<and> SourcePath p \<noteq> path"
  using assms unfolding packet_inv_def by (blast, simp, simp, simp, blast, blast, blast)

lemma queue_ok_mono: "queue_ok F R inst \<Longrightarrow> F \<subseteq> F' \<Longrightarrow> R \<subseteq> R' \<Longrightarrow> queue_ok F' R' inst"
  unfolding queue_ok_def by blast

lemma queue_ok_updates:
  assumes "queue_ok F R inst"
  shows "queue_ok F R (cancel_inst inst)" and "queue_ok F R (inst\<lparr>ni_joined := True\<rparr>)"
    and "queue_ok F R (inst\<lparr>ni_sendCh := tl (ni_sendCh inst), ni_sockets := ss\<rparr>)"
    and "queue_ok F R (inst\<lparr>ni_holding := (ni_holding inst)(k := None)\<rparr>)"
    and "SourcePath pkt \<noteq> ni_path inst \<Longrightarrow> pkt \<in> F \<Longrightarrow> length (ni_sendCh inst) < ChannelBuffer \<Longrightarrow>
         queue_ok F R (inst\<lparr>ni_sendCh := ni_sendCh inst @ [pkt]\<rparr>)"
    and "SourcePath pkt = ni_path inst \<Longrightarrow> pkt \<in> R \<Longrightarrow> queue_ok F R (inst\<lparr>ni_holding := (ni_holding inst)(k \<mapsto> pkt)\<rparr>)"
  using assms by (cases "ni_sendCh inst"; auto simp: queue_ok_def cancel_inst_def)+

text \<open>Preservation when only the heap and the broadcast loop change.\<close>

lemma packet_inv_heap:
  assumes "packet_inv r"
    and "\<And>i inst. r_heap r' i = Some inst \<Longrightarrow> queue_ok (fanned r) (h_received r) inst"
    and "r_broadcastCh r' = r_broadcastCh r" "h_received r' = h_received r" "h_fanout r' = h_fanout r"
    and "\<And>pkt dests. b_pc r' = BFan pkt dests \<Longrightarrow> pkt \<in> fanned r"
    and "\<And>path p. (path, p) \<in> h_written r' \<Longrightarrow> p \<in> fanned r \<and> SourcePath p \<noteq> path"
  shows "packet_inv r'"
proof -
  have fan: "fanned r' = fanned r" using assms(5) by (simp add: fanned_def)
  show ?thesis unfolding packet_inv_def assms(3,4) fan
    using assms(2,6,7) packet_invD(2-5) [OF assms(1)] by blast
qed

lemma received_packet_fields:
  "SourcePath (received_packet sock path x) = path" "Data (received_packet sock path x) \<noteq> None"
  "Group (received_packet sock path x) = Some (sock_Group sock)"
  by (simp_all add: received_packet_def split: prod.split)

lemma bcast_take_packet_inv:
  assumes inv: "packet_inv r"
  shows "packet_inv (bcast_take order r)"
proof (cases "r_broadcastCh r")
  case (Cons pkt rest)
  obtain m pkt' where p: "mw_Process (r_now r) (r_middleware r) pkt = (m, pkt')" by fastforce
  note eq = bcast_take_eq [OF Cons p, of order, unfolded Let_def]
  have ch: "length rest \<le> ChannelBuffer" "set rest \<subseteq> h_received r" "pkt \<in> h_received r"
    using packet_invD(2,3) [OF inv] Cons by auto
  show ?thesis
  proof (cases "Data pkt' = None")
    case True
    then have r': "r_heap (bcast_take order r) = r_heap r" "r_broadcastCh (bcast_take order r) = rest"
      "fanned (bcast_take order r) = fanned r" "b_pc (bcast_take order r) = b_pc r"
      by (simp_all add: eq fanned_def)
    show ?thesis unfolding packet_inv_def r' bcast_take_frame
      using ch packet_invD [OF inv] by blast
  next
    case False
    then have same: "pkt' = pkt" using chain.process_passed [OF p] by simp
    with False have some: "(Data pkt = None) = False" by simp
    have r': "r_broadcastCh (bcast_take order r) = rest"
      "fanned (bcast_take order r) = insert pkt (fanned r)"
      "b_pc (bcast_take order r) = BFan pkt (map (\<lambda>p. (p, the (r_snap r p))) order)"
      unfolding eq same some if_False fanned_def by simp_all
    have q: "queue_ok (insert pkt (fanned r)) (h_received r) inst" if "r_heap r i = Some inst" for i inst
      using packet_invD(1) [OF inv that] by (rule queue_ok_mono) auto
    show ?thesis unfolding packet_inv_def r' bcast_take_frame
      using ch q packet_invD(4,5,7) [OF inv] by auto
  qed
qed (use inv in \<open>simp add: bcast_take_def\<close>)

lemma packet_inv_inst:
  assumes inv: "packet_inv r" and "r_heap r' = (r_heap r)(i \<mapsto> inst')"
    and "queue_ok (fanned r) (h_received r) inst'"
    and "r_broadcastCh r' = r_broadcastCh r" "h_received r' = h_received r" "h_fanout r' = h_fanout r"
    and "b_pc r' = b_pc r" and "h_written r' = h_written r"
  shows "packet_inv r'"
  by (rule packet_inv_heap [OF inv])
    (use assms packet_invD(1,6,7) [OF inv] in \<open>simp_all split: if_splits\<close>)

lemma packet_inv_same:
  assumes inv: "packet_inv r" and "r_heap r' = r_heap r"
    and "r_broadcastCh r' = r_broadcastCh r" "h_received r' = h_received r" "h_fanout r' = h_fanout r"
    and "b_pc r' = b_pc r" and "h_written r' = h_written r"
  shows "packet_inv r'"
  by (rule packet_inv_heap [OF inv]) (use assms packet_invD(1,6,7) [OF inv] in simp_all)

lemma stage_frame_packets [simp]:
  "r_broadcastCh (coord_cancel i r) = r_broadcastCh r" "h_received (coord_cancel i r) = h_received r"
  "h_fanout (coord_cancel i r) = h_fanout r" "h_written (coord_cancel i r) = h_written r"
  "r_broadcastCh (coord_close env i r) = r_broadcastCh r" "h_received (coord_close env i r) = h_received r"
  "h_fanout (coord_close env i r) = h_fanout r" "h_written (coord_close env i r) = h_written r"
  "r_broadcastCh (coord_join env i r) = r_broadcastCh r" "h_received (coord_join env i r) = h_received r"
  "h_fanout (coord_join env i r) = h_fanout r" "h_written (coord_join env i r) = h_written r"
  by (auto simp: coord_cancel_def coord_close_def coord_join_def join_inst_def set_inst_def split: option.split)

lemma cancel_packet_inv:
  assumes inv: "packet_inv r"
  shows "packet_inv (continue pc (coord_cancel i r))"
proof (cases "r_heap r i")
  case None
  then show ?thesis using inv by (intro packet_inv_same [OF inv]) (simp_all add: continue_def coord_cancel_heap)
next
  case (Some inst)
  then show ?thesis using queue_ok_updates(1) [OF packet_invD(1) [OF inv Some]]
    by (intro packet_inv_inst [OF inv]) (simp_all add: continue_def coord_cancel_heap)
qed

lemma join_packet_inv:
  assumes inv: "packet_inv r"
  shows "packet_inv (continue pc (coord_join env i r))"
proof (cases "r_heap r i")
  case None
  then show ?thesis using inv by (intro packet_inv_same [OF inv]) (simp_all add: continue_def coord_join_heap)
next
  case (Some inst)
  then show ?thesis using queue_ok_updates(2) [OF packet_invD(1) [OF inv Some]]
    by (intro packet_inv_inst [OF inv]) (simp_all add: continue_def coord_join_heap)
qed

lemma add_packet_inv:
  assumes inv: "packet_inv r" and "reconcile_add env p (nxt, r) = (nxt', r')"
  shows "packet_inv (continue pc r')"
  using reconcile_add_pc [OF assms(2)]
proof (elim disjE exE conjE)
  fix inst w
  assume b: "buildInstance env (r_groups r) p (r_world r) = (Inr inst, w)"
    and r': "r' = set_inst (r_fresh r) inst (r\<lparr>r_world := w, r_fresh := Suc (r_fresh r)\<rparr>)"
  have "queue_ok (fanned r) (h_received r) inst"
    by (simp add: queue_ok_def buildInstance_Inr [OF b])
  then show ?thesis by (intro packet_inv_inst [OF inv]) (simp_all add: r' step_ops)
qed (auto intro!: packet_inv_same [OF inv] simp: continue_def)

lemma read_packet_inv:
  assumes inv: "packet_inv r" and "r_heap r i = Some inst"
    and pkt: "SourcePath pkt = ni_path inst" "Data pkt \<noteq> None"
  shows "packet_inv (receive_read i inst k pkt r)"
proof -
  have q: "queue_ok (fanned r) (insert pkt (h_received r)) j" if "r_heap r n = Some j" for n j
    using packet_invD(1) [OF inv that] by (rule queue_ok_mono) auto
  have "queue_ok (fanned r) (insert pkt (h_received r)) (inst\<lparr>ni_holding := (ni_holding inst)(k \<mapsto> pkt)\<rparr>)"
    using queue_ok_updates(6) [OF q [OF assms(2)] pkt(1)] by simp
  then show ?thesis
    using packet_invD(2-7) [OF inv] q pkt(2)
    by (auto simp: packet_inv_def receive_read_def set_inst_def fanned_def)
qed

lemma push_packet_inv:
  assumes inv: "packet_inv r" and i: "r_heap r i = Some inst" and "ni_holding inst k = Some pkt"
    and "length (r_broadcastCh r) < ChannelBuffer"
  shows "packet_inv (receive_push i inst k pkt r)"
proof -
  have q: "queue_ok (fanned r) (h_received r) inst" using packet_invD(1) [OF inv i] .
  then have "pkt \<in> h_received r" using assms(3) by (simp add: queue_ok_def)
  then show ?thesis
    using packet_invD [OF inv] queue_ok_updates(4) [OF q, of k] assms(4)
    by (auto simp: packet_inv_def receive_push_def set_inst_def fanned_def)
qed

lemma fan_packet_inv:
  assumes inv: "packet_inv r" and shape: "shape_inv r" and pc: "b_pc r = BFan pkt ((p, i) # dests)"
  shows "packet_inv ((fanout_one pkt p i r)\<lparr>b_pc := BFan pkt dests\<rparr>)"
proof -
  have "(p, i) \<in> refs r" by (simp add: refs_def bcast_refs_def pc)
  with shape obtain inst where i: "r_heap r i = Some inst" "ni_path inst = p"
    unfolding shape_inv_def using pointsD by blast
  have pkt: "pkt \<in> fanned r" using packet_invD(6) [OF inv pc] .
  have q: "queue_ok (fanned r) (h_received r) inst" using packet_invD(1) [OF inv i(1)] .
  have "queue_ok (fanned r) (h_received r) j" if "r_heap (fanout_one pkt p i r) n = Some j" for n j
    using that i queue_ok_updates(5) [OF q _ pkt] packet_invD(1) [OF inv]
    by (auto simp: fanout_one_heap [OF i(1)] split: if_splits)
  then show ?thesis using pkt packet_invD(7) [OF inv] by (intro packet_inv_heap [OF inv]) auto
qed

lemma worker_packet_inv:
  assumes inv: "packet_inv r" and w: "worker_take env i r = Some r'"
    and i: "r_heap r i = Some inst" and ne: "ni_sendCh inst \<noteq> []"
  shows "packet_inv r'"
proof -
  note f = worker_take_frame [OF w i ne]
  have q: "queue_ok (fanned r) (h_received r) inst" using packet_invD(1) [OF inv i] .
  from f(1) obtain ss where h: "r_heap r' = (r_heap r)(i \<mapsto> inst\<lparr>ni_sendCh := tl (ni_sendCh inst), ni_sockets := ss\<rparr>)"
    by blast
  have hd: "hd (ni_sendCh inst) \<in> fanned r \<and> SourcePath (hd (ni_sendCh inst)) \<noteq> ni_path inst"
    using q ne by (simp add: queue_ok_def)
  have "queue_ok (fanned r) (h_received r) j" if "r_heap r' n = Some j" for n j
    using that packet_invD(1) [OF inv] queue_ok_updates(3) [OF q, of ss] by (auto simp: h split: if_splits)
  moreover have "p \<in> fanned r \<and> SourcePath p \<noteq> path" if "(path, p) \<in> h_written r'" for path p
    using that f(2) hd packet_invD(7) [OF inv] by blast
  ultimately show ?thesis using packet_invD(6) [OF inv] by (intro packet_inv_heap [OF inv]) (simp_all add: f)
qed

lemma packet_step:
  assumes inv: "packet_inv r" and shape: "shape_inv r" and step: "relay_step env r r'"
  shows "packet_inv r'"
  using step
proof cases
  case (worker i inst)
  then show ?thesis using worker_packet_inv [OF inv] by blast
next
  case (read i inst k ev x)
  then show ?thesis using read_packet_inv [OF inv] received_packet_fields by simp
next
  case (quit i inst k pkt)
  then show ?thesis using queue_ok_updates(4) [OF packet_invD(1) [OF inv quit(2)]]
    by (intro packet_inv_inst [OF inv]) (simp_all add: step_ops)
next
  case (add p as nxt nxt' r')
  then show ?thesis using add_packet_inv [OF inv] by blast
next
  case (td_close i pc)
  then show ?thesis by (intro packet_inv_same [OF inv]) (simp_all add: step_ops)
next
  case fan_end
  then show ?thesis using packet_invD(1,7) [OF inv] by (intro packet_inv_heap [OF inv]) auto
next
  case bcast_stop
  then show ?thesis using packet_invD(1,7) [OF inv] by (intro packet_inv_heap [OF inv]) auto
qed (use cancel_packet_inv [OF inv] join_packet_inv [OF inv] bcast_take_packet_inv [OF inv]
       fan_packet_inv [OF inv shape] push_packet_inv [OF inv] in
     \<open>auto intro!: packet_inv_same [OF inv] simp: step_ops\<close>)

lemma packet_inv_New: "packet_inv (relay_New groups t w)"
  by (simp add: packet_inv_def relay_New_def fanned_def)

lemma reachable_packets: "reachable env groups t0 w0 r \<Longrightarrow> packet_inv r"
proof (induction rule: reachable_invariant)
  case init
  show ?case by (rule packet_inv_New)
next
  case (step r r')
  show ?case by (rule packet_step [OF step(3) reachable_shape [OF step(1)] step(2)])
qed

end
