(* ===== verification/RelayInvariants.thy ===== *)
theory RelayInvariants
  imports RelaySteps
begin

text \<open>
  More invariants of the steps of \<open>RelaySteps\<close>: the broadcast loop is a run of the loop
  guard, the pending sets and the timer record the accepted intents, every instance that is
  not torn down is one the coordinator still holds, a packet leaves on the socket of the
  group it arrived on. The reconcile pass as a sequence of steps does what the operation
  \<open>reconcile\<close> does in one.
\<close>

section \<open>The loop guard\<close>

lemma guard_run_snoc:
  "guard_run g (xs @ [(now, pkt)]) =
     (case guard_run g xs of
        (g', ys) \<Rightarrow>
          (case LoopGuard_Process now g' pkt of
             (g'', pkt') \<Rightarrow> (g'', if Data pkt' = None then ys else ys @ [(now, pkt')])))"
  by (induction g xs rule: guard_run.induct) (auto split: prod.split)

definition relay_guard :: LoopGuard where
  "relay_guard = NewLoopGuard DefaultLoopGuardWindow"

lemma window_relay_guard: "window relay_guard = DefaultLoopGuardWindow"
  by (simp add: relay_guard_def NewLoopGuard_def DefaultLoopGuardWindow_def millisecond_def)

definition guarded :: "'w relay \<Rightarrow> bool" where
  "guarded r \<longleftrightarrow>
     r_middleware r = Chain [LoopGuardMW (fst (guard_run relay_guard (h_processed r)))]
     \<and> h_fanout r = snd (guard_run relay_guard (h_processed r))
     \<and> sorted (map fst (h_processed r)) \<and> (\<forall>x \<in> set (h_processed r). fst x \<le> r_now r)"

lemma guarded_same:
  assumes "guarded r" and "r_middleware r' = r_middleware r" "h_processed r' = h_processed r"
    "h_fanout r' = h_fanout r" "r_now r \<le> r_now r'"
  shows "guarded r'"
  using assms unfolding guarded_def by force

lemma bcast_take_guarded:
  assumes inv: "guarded r"
  shows "guarded (bcast_take order r)"
proof (cases "r_broadcastCh r")
  case (Cons pkt rest)
  obtain g0 where run0: "guard_run relay_guard (h_processed r) = (g0, h_fanout r)"
    using inv unfolding guarded_def by (metis prod.collapse)
  obtain g' pkt' where g: "LoopGuard_Process (r_now r) g0 pkt = (g', pkt')" by fastforce
  have "mw_Process (r_now r) (r_middleware r) pkt = (Chain [LoopGuardMW g'], pkt')"
    using inv by (simp add: guarded_def chain_single_guard g run0)
  note eq = bcast_take_eq [OF Cons this, of order, unfolded Let_def]
  have run: "guard_run relay_guard (h_processed r @ [(r_now r, pkt)]) =
      (g', if Data pkt' = None then h_fanout r else h_fanout r @ [(r_now r, pkt')])"
    by (simp only: guard_run_snoc run0 g prod.case)
  have hist: "h_processed (bcast_take order r) = h_processed r @ [(r_now r, pkt)]"
    "r_middleware (bcast_take order r) = Chain [LoopGuardMW g']"
    "h_fanout (bcast_take order r) = (if Data pkt' = None then h_fanout r else h_fanout r @ [(r_now r, pkt')])"
    unfolding eq by auto
  show ?thesis using inv unfolding guarded_def hist run by (auto simp: sorted_append)
qed (use inv in \<open>simp add: bcast_take_def\<close>)

lemma stage_frame_history [simp]:
  "r_middleware (coord_cancel i r) = r_middleware r" "h_processed (coord_cancel i r) = h_processed r"
  "r_middleware (coord_close env i r) = r_middleware r" "h_processed (coord_close env i r) = h_processed r"
  "r_middleware (coord_join env i r) = r_middleware r" "h_processed (coord_join env i r) = h_processed r"
  "c_pendingAdd (coord_cancel i r) = c_pendingAdd r" "c_pendingDel (coord_cancel i r) = c_pendingDel r"
  "c_pendingAdd (coord_close env i r) = c_pendingAdd r" "c_pendingDel (coord_close env i r) = c_pendingDel r"
  "c_pendingAdd (coord_join env i r) = c_pendingAdd r" "c_pendingDel (coord_join env i r) = c_pendingDel r"
  "h_intents (coord_cancel i r) = h_intents r" "h_intents (coord_close env i r) = h_intents r"
  "h_intents (coord_join env i r) = h_intents r"
  "r_ctxDone (coord_cancel i r) = r_ctxDone r" "r_ctxDone (coord_close env i r) = r_ctxDone r"
  "r_ctxDone (coord_join env i r) = r_ctxDone r"
  by (auto simp: coord_cancel_def coord_close_def coord_join_def join_inst_def set_inst_def split: option.split)

lemma coord_accept_history [simp]:
  "h_processed (coord_accept op p r) = h_processed r"
  "h_intents (coord_accept op p r) = h_intents r @ [(r_now r, op, p)]"
  by (auto simp: coord_accept_def Let_def split: nsCmdType.split)

lemma reconcile_add_frame:
  assumes "reconcile_add env p (nxt, r) = (nxt', r')"
  shows "r_middleware r' = r_middleware r" "h_processed r' = h_processed r" "h_fanout r' = h_fanout r"
    "r_now r' = r_now r" "c_timer r' = c_timer r" "c_pendingAdd r' = c_pendingAdd r"
    "c_pendingDel r' = c_pendingDel r" "h_intents r' = h_intents r" "r_snap r' = r_snap r"
    "b_pc r' = b_pc r" "r_groups r' = r_groups r" "h_received r' = h_received r" "h_written r' = h_written r"
  using reconcile_add_pc [OF assms] by (auto simp: set_inst_def)

lemma guarded_step:
  assumes inv: "guarded r" and step: "relay_step env r r'"
  shows "guarded r'"
  using step
proof cases
  case (take order)
  then show ?thesis using bcast_take_guarded [OF inv] by simp
next
  case (add p as nxt nxt' r1)
  note f = reconcile_add_frame [OF add(3)]
  show ?thesis unfolding add(1) by (rule guarded_same [OF inv]) (simp_all add: continue_def f)
next
  case (worker i inst)
  note f = worker_take_frame [OF worker(4,1,3)]
  show ?thesis by (rule guarded_same [OF inv]) (simp_all add: f)
qed (rule guarded_same [OF inv]; simp add: step_ops)+

lemma reachable_guarded: "reachable env groups t0 w0 r \<Longrightarrow> guarded r"
proof (induction rule: reachable_invariant)
  case init
  show ?case by (simp add: guarded_def relay_New_def relay_guard_def)
next
  case (step r r')
  show ?case by (rule guarded_step [OF step(3,2)])
qed

section \<open>Intents and the timer\<close>

text \<open>Whether the coordinator is in its \<^verbatim>\<open>select\<close>, in a reconcile pass or past the loop.\<close>

fun in_pass :: "coord_pc \<Rightarrow> bool" where
  "in_pass (CReconcile ds as nxt) = True"
| "in_pass (CCancelled i pc) = in_pass pc"
| "in_pass (CClosed i pc) = in_pass pc"
| "in_pass _ = False"

definition intents_inv :: "'w relay \<Rightarrow> bool" where
  "intents_inv r \<longleftrightarrow>
     (\<forall>p. p \<in> c_pendingAdd r \<longleftrightarrow> last_intent (map snd (h_intents r)) p = Some nsCmdAdd)
     \<and> (\<forall>p. p \<in> c_pendingDel r \<longleftrightarrow> last_intent (map snd (h_intents r)) p = Some nsCmdRemove)
     \<and> (c_pc r = CSelect \<longrightarrow>
          c_timer r = (if h_intents r = [] then None else Some (fst (last (h_intents r)) + DebounceWindow)))
     \<and> (c_pc r \<noteq> CSelect \<longrightarrow> c_timer r = None)
     \<and> (in_pass (c_pc r) \<longrightarrow> h_intents r \<noteq> [] \<and> fst (last (h_intents r)) + DebounceWindow \<le> r_now r)"

lemma intents_invD:
  assumes "intents_inv r"
  shows "p \<in> c_pendingAdd r \<longleftrightarrow> last_intent (map snd (h_intents r)) p = Some nsCmdAdd"
    and "p \<in> c_pendingDel r \<longleftrightarrow> last_intent (map snd (h_intents r)) p = Some nsCmdRemove"
    and "c_pc r = CSelect \<Longrightarrow>
          c_timer r = (if h_intents r = [] then None else Some (fst (last (h_intents r)) + DebounceWindow))"
    and "c_pc r \<noteq> CSelect \<Longrightarrow> c_timer r = None"
    and "in_pass (c_pc r) \<Longrightarrow> h_intents r \<noteq> [] \<and> fst (last (h_intents r)) + DebounceWindow \<le> r_now r"
  using assms unfolding intents_inv_def by blast+

lemma intents_same:
  assumes "intents_inv r" and "h_intents r' = h_intents r"
    "c_pendingAdd r' = c_pendingAdd r" "c_pendingDel r' = c_pendingDel r" "c_timer r' = c_timer r"
    "r_now r \<le> r_now r'" "c_pc r' = CSelect \<longleftrightarrow> c_pc r = CSelect" "in_pass (c_pc r') \<longrightarrow> in_pass (c_pc r)"
  shows "intents_inv r'"
  using assms(1) unfolding intents_inv_def assms(2-5,7) using assms(6,8) by force

text \<open>A nested place of the coordinator is one of a pass or of the shutdown.\<close>

fun pc_ok :: "coord_pc \<Rightarrow> bool" where
  "pc_ok (CCancelled i pc) \<longleftrightarrow> pc_ok pc \<and> pc \<noteq> CSelect"
| "pc_ok (CClosed i pc) \<longleftrightarrow> pc_ok pc \<and> pc \<noteq> CSelect"
| "pc_ok _ \<longleftrightarrow> True"

lemma pc_ok_step:
  assumes "pc_ok (c_pc r)" and "relay_step env r r'"
  shows "pc_ok (c_pc r')"
  using assms(2,1) by cases (auto simp: step_ops worker_take_frame)

lemma accept_intents_inv:
  assumes inv: "intents_inv r" and "c_pc r = CSelect"
  shows "intents_inv (coord_accept op q r)"
proof -
  have snoc: "last_intent (map snd (h_intents r @ [(t, op, q)])) p
      = (if p = q then Some op else last_intent (map snd (h_intents r)) p)" for p t
    by (simp add: last_intent_snoc)
  show ?thesis
    unfolding intents_inv_def coord_accept_history snoc coord_accept_pending
    using intents_invD(1,2) [OF inv] assms(2) by (cases op) auto
qed

lemma intents_step:
  assumes inv: "intents_inv r" and pc: "pc_ok (c_pc r)" and step: "relay_step env r r'"
  shows "intents_inv r'"
  using step
proof cases
  case (accept op p)
  then show ?thesis using accept_intents_inv [OF inv] by simp
next
  case (fire d ds "as")
  then have "h_intents r \<noteq> []" "d = fst (last (h_intents r)) + DebounceWindow"
    using intents_invD(3) [OF inv] by (auto split: if_splits)
  with fire show ?thesis using intents_invD(1,2) [OF inv]
    by (simp add: intents_inv_def coord_fire_def)
next
  case (store nxt)
  then show ?thesis using intents_invD(4) [OF inv]
    by (simp add: intents_inv_def reconcile_store_def last_intent_def)
next
  case (stop ps)
  then show ?thesis using intents_invD(1,2) [OF inv]
    by (simp add: intents_inv_def continue_def)
next
  case (add p as nxt nxt' r1)
  note f = reconcile_add_frame [OF add(3)]
  show ?thesis unfolding add(1) by (rule intents_same [OF inv]) (simp_all add: continue_def f add(2))
next
  case (worker i inst)
  note f = worker_take_frame [OF worker(4,1,3)]
  show ?thesis by (rule intents_same [OF inv]) (simp_all add: f)
qed (rule intents_same [OF inv]; use pc in \<open>simp add: step_ops\<close>)+

lemma reachable_intents: "reachable env groups t0 w0 r \<Longrightarrow> intents_inv r \<and> pc_ok (c_pc r)"
proof (induction rule: reachable_invariant)
  case init
  show ?case by (simp add: intents_inv_def relay_New_def last_intent_def)
next
  case (step r r')
  then show ?case using intents_step [of r env r'] pc_ok_step [of r env r'] by blast
qed

section \<open>Live instances\<close>

text \<open>
  The instances the coordinator holds (\<open>alive\<close>), and the one it is tearing down
  (\<open>dying\<close>), from the place it is at.
\<close>

fun alive :: "(string \<rightharpoonup> nat) \<Rightarrow> coord_pc \<Rightarrow> nat set" where
  "alive snap CSelect = ran snap"
| "alive snap (CReconcile ds as nxt) = ran nxt"
| "alive snap (CStopping is) = set is"
| "alive snap (CCancelled i pc) = alive snap pc"
| "alive snap (CClosed i pc) = alive snap pc"

fun dying :: "coord_pc \<Rightarrow> nat set" where
  "dying (CCancelled i pc) = {i}"
| "dying (CClosed i pc) = {i}"
| "dying _ = {}"

fun stop_distinct :: "coord_pc \<Rightarrow> bool" where
  "stop_distinct (CStopping is) \<longleftrightarrow> distinct is"
| "stop_distinct (CCancelled i pc) \<longleftrightarrow> stop_distinct pc \<and> dying pc = {} \<and> pc \<noteq> CSelect"
| "stop_distinct (CClosed i pc) \<longleftrightarrow> stop_distinct pc \<and> dying pc = {} \<and> pc \<noteq> CSelect"
| "stop_distinct _ \<longleftrightarrow> True"

text \<open>Of every instance: whether its context is cancelled, whether its goroutines have returned.\<close>

definition flags :: "'w relay \<Rightarrow> nat \<Rightarrow> (bool \<times> bool) option" where
  "flags r i = map_option (\<lambda>inst. (ni_done inst, ni_joined inst)) (r_heap r i)"

definition life_inv :: "'w relay \<Rightarrow> bool" where
  "life_inv r \<longleftrightarrow>
     (\<forall>i. flags r i = Some (False, False) \<longleftrightarrow> i \<in> alive (r_snap r) (c_pc r))
     \<and> (\<forall>i. flags r i = Some (True, False) \<longleftrightarrow> i \<in> dying (c_pc r))
     \<and> (\<forall>i. flags r i \<noteq> Some (False, True)) \<and> stop_distinct (c_pc r)"

lemma life_invD:
  assumes "life_inv r"
  shows "flags r i = Some (False, False) \<longleftrightarrow> i \<in> alive (r_snap r) (c_pc r)"
    and "flags r i = Some (True, False) \<longleftrightarrow> i \<in> dying (c_pc r)"
    and "flags r i \<noteq> Some (False, True)"
    and "stop_distinct (c_pc r)"
  using assms unfolding life_inv_def by blast+

lemma life_same:
  assumes "life_inv r" and "flags r' = flags r" "r_snap r' = r_snap r" "c_pc r' = c_pc r"
  shows "life_inv r'"
  using assms(1) unfolding life_inv_def assms(2-4) .

lemma flags_upd: "r_heap r' = (r_heap r)(i \<mapsto> inst) \<Longrightarrow> flags r' = (flags r)(i \<mapsto> (ni_done inst, ni_joined inst))"
  by (auto simp: flags_def)

lemma flags_upd_same:
  "r_heap r i = Some inst \<Longrightarrow> r_heap r' = (r_heap r)(i \<mapsto> inst') \<Longrightarrow> ni_done inst' = ni_done inst \<Longrightarrow>
   ni_joined inst' = ni_joined inst \<Longrightarrow> flags r' = flags r"
  by (auto simp: flags_def)

lemma flags_heap: "r_heap r' = r_heap r \<Longrightarrow> flags r' = flags r"
  by (simp add: flags_def fun_eq_iff)

lemma flags_fanout: "flags (fanout_one pkt p i r) = flags r"
  by (auto simp: flags_def fanout_one_def set_inst_def fun_eq_iff split: option.split)

text \<open>Two paths of one map never share an instance.\<close>

lemma points_inj:
  assumes "points h (Map.graph m)" and "m p = Some i" and "m q = Some i"
  shows "p = q"
proof -
  from assms(2,3) have "(p, i) \<in> Map.graph m" "(q, i) \<in> Map.graph m" by (simp_all add: Map.graph_def)
  from this [THEN pointsD [OF assms(1)]] show ?thesis by auto
qed

lemma ran_upd_None:
  assumes "points h (Map.graph m)" and "m p = Some i"
  shows "ran (m(p := None)) = ran m - {i}" and "i \<in> ran m"
proof -
  show "ran (m(p := None)) = ran m - {i}"
    by (rule ran_delete [of m p i, OF _ assms(2)]) (rule points_inj [OF assms(1)])
  show "i \<in> ran m" using assms(2) by (rule ranI)
qed

lemma cancel_life:
  assumes inv: "life_inv r"
    and "alive (r_snap r) pc = alive (r_snap r) (c_pc r) - {i}" and i: "i \<in> alive (r_snap r) (c_pc r)"
    and "dying (c_pc r) = {}" and "stop_distinct pc" "dying pc = {}" "pc \<noteq> CSelect"
  shows "life_inv (continue (CCancelled i pc) (coord_cancel i r))"
proof -
  let ?r = "continue (CCancelled i pc) (coord_cancel i r)"
  have f: "flags r i = Some (False, False)" using life_invD(1) [OF inv] i by blast
  have fl: "flags ?r j = (if j = i then Some (True, False) else flags r j)" for j
    using f by (auto simp: flags_def continue_def coord_cancel_heap cancel_inst_def split: option.split)
  have pc: "alive (r_snap ?r) (c_pc ?r) = alive (r_snap r) (c_pc r) - {i}" "dying (c_pc ?r) = {i}" "stop_distinct (c_pc ?r)"
    using assms(2,5-7) by (simp_all add: continue_def)
  show ?thesis unfolding life_inv_def fl pc
    using life_invD [OF inv] assms(4) by (simp add: pc)
qed

lemma join_life:
  assumes inv: "life_inv r" and pc: "c_pc r = CClosed i pc"
  shows "life_inv (continue pc (coord_join env i r))"
proof -
  let ?r = "continue pc (coord_join env i r)"
  have f: "flags r i = Some (True, False)" using life_invD(2) [OF inv] pc by simp
  have fl: "flags ?r j = (if j = i then Some (True, True) else flags r j)" for j
    using f by (auto simp: flags_def continue_def coord_join_heap split: option.split)
  have pc': "alive (r_snap ?r) (c_pc ?r) = alive (r_snap r) (c_pc r)" "dying (c_pc ?r) = {}" "stop_distinct (c_pc ?r)"
    "dying (c_pc r) = {i}"
    using pc life_invD(4) [OF inv] by (simp_all add: continue_def)
  have "i \<notin> alive (r_snap r) (c_pc r)" using life_invD(1) [OF inv, of i] f by simp
  then show ?thesis unfolding life_inv_def fl pc'
    using life_invD [OF inv] by (auto simp: pc')
qed

lemma add_life:
  assumes inv: "life_inv r" and shape: "shape_inv r" and pc: "c_pc r = CReconcile ds (p # as) nxt"
    and add: "reconcile_add env p (nxt, r) = (nxt', r')"
  shows "life_inv (continue (CReconcile ds as nxt') r')"
  using reconcile_add_pc [OF add]
proof (elim disjE exE conjE)
  fix inst w
  assume p: "nxt p = None" and b: "buildInstance env (r_groups r) p (r_world r) = (Inr inst, w)"
    and nxt': "nxt' = nxt(p \<mapsto> r_fresh r)"
    and r': "r' = set_inst (r_fresh r) inst (r\<lparr>r_world := w, r_fresh := Suc (r_fresh r)\<rparr>)"
  let ?r = "continue (CReconcile ds as nxt') r'"
  have "r_heap r (r_fresh r) = None" using shape by (auto simp: shape_inv_def)
  then have free: "flags r (r_fresh r) = None" by (simp add: flags_def)
  have fl: "flags ?r j = (if j = r_fresh r then Some (False, False) else flags r j)" for j
    using buildInstance_Inr [OF b] by (auto simp: flags_def r' step_ops)
  have pc': "alive (r_snap ?r) (c_pc ?r) = insert (r_fresh r) (alive (r_snap r) (c_pc r))"
    "dying (c_pc ?r) = dying (c_pc r)" "stop_distinct (c_pc ?r)"
    using ran_map_upd [of nxt p, OF p] pc by (simp_all add: continue_def nxt')
  show ?thesis unfolding life_inv_def fl pc'
    using life_invD [OF inv] free life_invD(2) [OF inv, of "r_fresh r"] by (auto simp: pc')
qed (use inv pc in \<open>simp_all add: life_inv_def flags_def continue_def\<close>)

lemma points_snap: "shape_inv r \<Longrightarrow> points (r_heap r) (Map.graph (r_snap r))"
  unfolding shape_inv_def refs_def by simp

lemma points_nxt: "shape_inv r \<Longrightarrow> c_pc r = CReconcile ds as nxt \<Longrightarrow> points (r_heap r) (Map.graph nxt)"
  unfolding shape_inv_def refs_def by simp

lemma snap_instances:
  assumes shape: "shape_inv r" and ps: "enumerates ps (dom (r_snap r))"
  shows "set (map (\<lambda>p. the (r_snap r p)) ps) = ran (r_snap r)" and "distinct (map (\<lambda>p. the (r_snap r p)) ps)"
proof -
  have set: "set ps = dom (r_snap r)" and "distinct ps" using ps by (auto simp: enumerates_def)
  then show "set (map (\<lambda>p. the (r_snap r p)) ps) = ran (r_snap r)" by (force simp: ran_def)
  have "inj_on (\<lambda>p. the (r_snap r p)) (dom (r_snap r))"
  proof (rule inj_onI)
    fix p q assume "p \<in> dom (r_snap r)" "q \<in> dom (r_snap r)" "the (r_snap r p) = the (r_snap r q)"
    then obtain i where "r_snap r p = Some i" "r_snap r q = Some i" by auto
    then show "p = q" by (rule points_inj [OF points_snap [OF shape]])
  qed
  with set \<open>distinct ps\<close> show "distinct (map (\<lambda>p. the (r_snap r p)) ps)" by (simp add: distinct_map)
qed

lemma life_step:
  assumes inv: "life_inv r" and shape: "shape_inv r" and step: "relay_step env r r'"
  shows "life_inv r'"
  using step
proof cases
  case (del_cancel p ds as nxt i)
  note ran = ran_upd_None [OF points_nxt [OF shape del_cancel(2)] del_cancel(3)]
  show ?thesis unfolding del_cancel(1)
    by (rule cancel_life [OF inv]) (simp_all add: del_cancel(2) ran)
next
  case (stop_cancel i "is")
  show ?thesis unfolding stop_cancel(1)
    by (rule cancel_life [OF inv]) (use life_invD(4) [OF inv] in \<open>simp_all add: stop_cancel(2)\<close>)
next
  case (td_join i pc)
  then show ?thesis using join_life [OF inv] by blast
next
  case (add p as nxt nxt' r1)
  then show ?thesis using add_life [OF inv shape] by blast
next
  case (stop ps)
  have "flags r' = flags r" by (rule flags_heap) (simp add: stop continue_def)
  then show ?thesis using inv snap_instances [OF shape stop(4)]
    by (simp add: life_inv_def stop continue_def)
next
  case (fire d ds "as")
  have "flags r' = flags r" by (rule flags_heap) (simp add: fire coord_fire_def)
  then show ?thesis using inv fire by (simp add: life_inv_def coord_fire_def)
next
  case (store nxt)
  have "flags r' = flags r" by (rule flags_heap) (simp add: store reconcile_store_def)
  then show ?thesis using inv store by (simp add: life_inv_def reconcile_store_def)
next
  case (del_absent p ds as nxt)
  have "flags r' = flags r" by (rule flags_heap) (simp add: del_absent continue_def)
  then show ?thesis using inv del_absent by (simp add: life_inv_def continue_def)
next
  case (td_close i pc)
  have "flags r' = flags r" by (rule flags_heap) (simp add: td_close continue_def)
  then show ?thesis using inv td_close by (simp add: life_inv_def continue_def)
next
  case (worker i inst)
  note f = worker_take_frame [OF worker(4,1,3)]
  from f(1) obtain ss where "r_heap r' = (r_heap r)(i \<mapsto> inst\<lparr>ni_sendCh := tl (ni_sendCh inst), ni_sockets := ss\<rparr>)"
    by blast
  then have "flags r' = flags r" by (rule flags_upd_same [OF worker(1)]) simp_all
  then show ?thesis by (rule life_same [OF inv]) (simp_all add: f)
next
  case (read i inst k ev x)
  have "flags r' = flags r" 
    by (rule flags_upd_same [OF read(2), where inst' = "inst\<lparr>ni_holding := (ni_holding inst)
          (k \<mapsto> received_packet (ni_sockets inst ! k) (ni_path inst) x)\<rparr>"])
      (simp_all add: read(1) step_ops)
  then show ?thesis by (rule life_same [OF inv]) (simp_all add: read(1) step_ops)
next
  case (push i inst k pkt)
  have "flags r' = flags r" by (rule flags_upd_same [OF push(2), where inst' = "inst\<lparr>ni_holding := (ni_holding inst)(k := None)\<rparr>"])
      (simp_all add: push(1) step_ops)
  then show ?thesis by (rule life_same [OF inv]) (simp_all add: push(1) step_ops)
next
  case (quit i inst k pkt)
  have "flags r' = flags r" by (rule flags_upd_same [OF quit(2), where inst' = "inst\<lparr>ni_holding := (ni_holding inst)(k := None)\<rparr>"])
      (simp_all add: quit(1) step_ops)
  then show ?thesis by (rule life_same [OF inv]) (simp_all add: quit(1) step_ops)
next
  case (fan pkt p i dests)
  have "flags r' = flags (fanout_one pkt p i r)" by (rule flags_heap) (simp add: fan)
  then show ?thesis by (intro life_same [OF inv]) (simp_all add: fan flags_fanout)
qed (rule life_same [OF inv], rule flags_heap; simp)+

lemma reachable_life: "reachable env groups t0 w0 r \<Longrightarrow> life_inv r"
proof (induction rule: reachable_invariant)
  case init
  show ?case by (simp add: life_inv_def relay_New_def flags_def)
next
  case (step r r')
  show ?case by (rule life_step [OF step(3) reachable_shape [OF step(1)] step(2)])
qed

section \<open>Groups\<close>

text \<open>
  Every instance has one socket per configured group and finds it by its key: the sockets
  keep their group when they are written to.
\<close>

definition write_keeps_group :: "'w relay_env \<Rightarrow> bool" where
  "write_keeps_group env \<longleftrightarrow>
     (\<forall>s data src ttl w res s' w'. env_WriteToGroup env s data src ttl w = Some (res, s', w') \<longrightarrow>
        sock_Group s' = sock_Group s)"

lemma write_keeps_groupD:
  "write_keeps_group env \<Longrightarrow> env_WriteToGroup env s data src ttl w = Some (res, s', w') \<Longrightarrow> sock_Group s' = sock_Group s"
  unfolding write_keeps_group_def by blast

lemma write_keeps_group_os_env: "write_keeps_group (os_env nsapi api)"
  using WriteToGroup_marks by (fastforce simp: write_keeps_group_def os_env_def sock_Group_def)

definition groups_inv :: "udp_addr list \<Rightarrow> 'w relay \<Rightarrow> bool" where
  "groups_inv groups r \<longleftrightarrow> r_groups r = groups
     \<and> (\<forall>i inst. r_heap r i = Some inst \<longrightarrow> indexed_by_group groups (ni_sockets inst) (ni_socketsByGroup inst))
     \<and> (\<forall>p \<in> h_received r. \<exists>g \<in> set groups. Group p = Some g)"

lemma groups_invD:
  assumes "groups_inv groups r"
  shows "r_groups r = groups"
    and "r_heap r i = Some inst \<Longrightarrow> indexed_by_group groups (ni_sockets inst) (ni_socketsByGroup inst)"
    and "p \<in> h_received r \<Longrightarrow> \<exists>g \<in> set groups. Group p = Some g"
  using assms unfolding groups_inv_def by blast+

lemma indexed_by_group_upd:
  assumes "indexed_by_group groups ss m" and "k < length ss" and "sock_Group s' = sock_Group (ss ! k)"
  shows "indexed_by_group groups (ss[k := s']) m"
proof -
  have same: "sock_Group (ss[k := s'] ! n) = sock_Group (ss ! n)" for n
    using assms(2,3) by (cases "n = k") simp_all
  have "map sock_Group (ss[k := s']) = map sock_Group ss"
    by (rule nth_equalityI) (simp_all add: same)
  then show ?thesis using assms(1) unfolding indexed_by_group_def by (simp add: same)
qed

lemma groups_same:
  assumes inv: "groups_inv groups r" and "r_groups r' = r_groups r" "h_received r' = h_received r"
    and "\<And>i inst'. r_heap r' i = Some inst' \<Longrightarrow> \<exists>inst. r_heap r i = Some inst
           \<and> ni_sockets inst' = ni_sockets inst \<and> ni_socketsByGroup inst' = ni_socketsByGroup inst"
  shows "groups_inv groups r'"
proof -
  have "indexed_by_group groups (ni_sockets inst') (ni_socketsByGroup inst')" if "r_heap r' i = Some inst'" for i inst'
    using assms(4) [OF that] groups_invD(2) [OF inv] by auto
  then show ?thesis using groups_invD(1,3) [OF inv] by (simp add: groups_inv_def assms(2,3))
qed

lemma stage_frame_groups:
  "r_heap (coord_cancel i r) j = Some inst' \<Longrightarrow> \<exists>inst. r_heap r j = Some inst
     \<and> ni_sockets inst' = ni_sockets inst \<and> ni_socketsByGroup inst' = ni_socketsByGroup inst"
  "r_heap (coord_join env i r) j = Some inst' \<Longrightarrow> \<exists>inst. r_heap r j = Some inst
     \<and> ni_sockets inst' = ni_sockets inst \<and> ni_socketsByGroup inst' = ni_socketsByGroup inst"
  "r_heap (fanout_one pkt p i r) j = Some inst' \<Longrightarrow> \<exists>inst. r_heap r j = Some inst
     \<and> ni_sockets inst' = ni_sockets inst \<and> ni_socketsByGroup inst' = ni_socketsByGroup inst"
  by (auto simp: coord_cancel_heap coord_join_heap cancel_inst_def fanout_one_def set_inst_def
      split: option.splits if_splits)

lemma worker_groups:
  assumes inv: "groups_inv groups r" and wk: "write_keeps_group env"
    and w: "worker_take env i r = Some r'" and i: "r_heap r i = Some inst" and ne: "ni_sendCh inst \<noteq> []"
  shows "groups_inv groups r'"
proof -
  obtain pkt rest where q: "ni_sendCh inst = pkt # rest" using ne by (cases "ni_sendCh inst") auto
  have ix: "indexed_by_group groups (ni_sockets inst) (ni_socketsByGroup inst)" using groups_invD(2) [OF inv i] .
  show ?thesis
  proof (rule worker_take_cases [OF w i q])
    assume r': "r' = set_inst i (inst\<lparr>ni_sendCh := rest\<rparr>) r"
    show ?thesis by (rule groups_same [OF inv]) (use i in \<open>auto simp: r' set_inst_def split: if_splits\<close>)
  next
    fix k res sock wd
    assume k: "ni_socketsByGroup inst (groupKeyFromUDPAddr (Group pkt)) = Some k"
      and wr: "env_WriteToGroup env (ni_sockets inst ! k) (bytes_of (Data pkt)) (Source pkt) (TTL pkt) (r_world r)
        = Some (res, sock, wd)"
      and r': "r' = set_inst i (inst\<lparr>ni_sendCh := rest, ni_sockets := (ni_sockets inst)[k := sock]\<rparr>)
              (r\<lparr>r_world := wd, h_written := insert (ni_path inst, pkt) (h_written r)\<rparr>)"
    have "k < length (ni_sockets inst)" using ix k by (simp add: indexed_by_group_def)
    from indexed_by_group_upd [OF ix this write_keeps_groupD [OF wk wr]]
    show ?thesis using groups_invD [OF inv] by (auto simp: groups_inv_def r' set_inst_def)
  qed
qed

lemma groups_step:
  assumes inv: "groups_inv groups r" and kg: "keeps_group env" and wk: "write_keeps_group env"
    and step: "relay_step env r r'"
  shows "groups_inv groups r'"
  using step
proof cases
  case (worker i inst)
  show ?thesis by (rule worker_groups [OF inv wk worker(4,1,3)])
next
  case (add p as nxt nxt' r1)
  show ?thesis
    using reconcile_add_pc [OF add(3)]
  proof (elim disjE exE conjE)
    fix inst w
    assume b: "buildInstance env (r_groups r) p (r_world r) = (Inr inst, w)"
      and r1: "r1 = set_inst (r_fresh r) inst (r\<lparr>r_world := w, r_fresh := Suc (r_fresh r)\<rparr>)"
    have "indexed_by_group groups (ni_sockets inst) (ni_socketsByGroup inst)"
      using buildInstance_indexed [OF kg b] groups_invD(1) [OF inv] by simp
    then show ?thesis using groups_invD [OF inv] by (auto simp: groups_inv_def add(1) r1 step_ops)
  qed (use inv in \<open>auto simp: groups_inv_def add(1) continue_def\<close>)
next
  case (read i inst k ev x)
  have ix: "indexed_by_group groups (ni_sockets inst) (ni_socketsByGroup inst)" using groups_invD(2) [OF inv read(2)] .
  then have "sock_Group (ni_sockets inst ! k) \<in> set groups"
    using read(4) unfolding indexed_by_group_def by (metis length_map nth_map nth_mem)
  then show ?thesis using groups_invD [OF inv] ix
    by (auto simp: groups_inv_def read(1) step_ops received_packet_fields)
next
  case (push i inst k pkt)
  show ?thesis by (rule groups_same [OF inv]) (use push(2) in \<open>auto simp: push(1) step_ops split: if_splits\<close>)
next
  case (quit i inst k pkt)
  show ?thesis by (rule groups_same [OF inv]) (use quit(2) in \<open>auto simp: quit(1) step_ops split: if_splits\<close>)
qed (rule groups_same [OF inv]; use stage_frame_groups in \<open>fastforce simp: step_ops\<close>)+

lemma reachable_groups:
  assumes "keeps_group env" and "write_keeps_group env" and "reachable env groups t0 w0 r"
  shows "groups_inv groups r"
  using assms(3)
proof (induction rule: reachable_invariant)
  case init
  show ?case by (simp add: groups_inv_def relay_New_def)
next
  case (step r r')
  show ?case by (rule groups_step [OF step(3) assms(1,2) step(2)])
qed

section \<open>The pass, step by step\<close>

lemma continue_continue [simp]: "continue pc (continue pc' r) = continue pc r"
  by (simp add: continue_def)

lemma continue_id: "c_pc r = pc \<Longrightarrow> continue pc r = r"
  by (auto simp: continue_def)

lemma continue_pc [simp]: "c_pc (continue pc r) = pc"
  by (simp add: continue_def)

lemma stage_continue:
  "coord_cancel i (continue pc r) = continue pc (coord_cancel i r)"
  "coord_close env i (continue pc r) = continue pc (coord_close env i r)"
  "coord_join env i (continue pc r) = continue pc (coord_join env i r)"
  "reconcile_store nxt (continue pc r) = reconcile_store nxt r"
  by (auto simp: continue_def coord_cancel_def coord_close_def coord_join_def join_inst_def set_inst_def
      reconcile_store_def split: option.split)

lemma add_continue:
  "reconcile_add env p (nxt, r) = (nxt', r') \<Longrightarrow> reconcile_add env p (nxt, continue pc r) = (nxt', continue pc r')"
  by (auto simp: reconcile_add_def continue_def set_inst_def split: option.splits prod.splits sum.splits)

lemma teardown_steps:
  assumes "c_pc r = CReconcile (p # ds) as nxt" and "nxt p = Some i"
  shows "(relay_step env)\<^sup>*\<^sup>* r (continue (CReconcile ds as (nxt(p := None))) (coord_teardown env i r))"
proof -
  let ?pc = "CReconcile ds as (nxt(p := None))"
  have 1: "relay_step env r (continue (CCancelled i ?pc) (coord_cancel i r))"
    by (rule relay_step.del_cancel [OF assms])
  have 2: "relay_step env (continue (CCancelled i ?pc) (coord_cancel i r))
      (continue (CClosed i ?pc) (coord_close env i (coord_cancel i r)))"
    using relay_step.td_close [of "continue (CCancelled i ?pc) (coord_cancel i r)" i ?pc env]
    by (simp add: stage_continue)
  have 3: "relay_step env (continue (CClosed i ?pc) (coord_close env i (coord_cancel i r)))
      (continue ?pc (coord_teardown env i r))"
    using relay_step.td_join [of "continue (CClosed i ?pc) (coord_close env i (coord_cancel i r))" i ?pc env]
    by (simp add: stage_continue coord_teardown_def)
  show ?thesis
    by (rule converse_rtranclp_into_rtranclp [where r = "relay_step env", OF 1]) (rule converse_rtranclp_into_rtranclp [where r = "relay_step env", OF 2],
      rule r_into_rtranclp [where r = "relay_step env", OF 3])
qed

lemma del_steps:
  "c_pc r = CReconcile ds as nxt \<Longrightarrow> fold (reconcile_del env) ds (nxt, r) = (nxt', r') \<Longrightarrow>
   (relay_step env)\<^sup>*\<^sup>* r (continue (CReconcile [] as nxt') r')"
proof (induction ds arbitrary: nxt r r')
  case Nil
  then show ?case by (simp add: continue_id)
next
  case (Cons p ds)
  obtain nxt1 r1 where d: "reconcile_del env p (nxt, r) = (nxt1, r1)" by fastforce
  let ?r1 = "continue (CReconcile ds as nxt1) r1"
  have first: "(relay_step env)\<^sup>*\<^sup>* r ?r1"
  proof (cases "nxt p")
    case None
    then show ?thesis using relay_step.del_absent [OF Cons.prems(1) None, of env] d
      by (auto simp: reconcile_del_def)
  next
    case (Some i)
    then show ?thesis using teardown_steps [OF Cons.prems(1) Some, of env] d
      by (auto simp: reconcile_del_def)
  qed
  have fold_continue: "fold (reconcile_del env) ds (n, continue pc s) =
      (case fold (reconcile_del env) ds (n, s) of (n', s') \<Rightarrow> (n', continue pc s'))" for n s pc
  proof (induction ds arbitrary: n s)
    case (Cons q qs)
    have "reconcile_del env q (n, continue pc s) = (case reconcile_del env q (n, s) of (n', s') \<Rightarrow> (n', continue pc s'))"
      by (auto simp: reconcile_del_def coord_teardown_def stage_continue split: option.split)
    then show ?case using Cons by (simp split: prod.splits)
  qed simp
  from Cons.prems(2) d have "fold (reconcile_del env) ds (nxt1, r1) = (nxt', r')" by simp
  then have "fold (reconcile_del env) ds (nxt1, ?r1) = (nxt', continue (CReconcile ds as nxt1) r')"
    by (simp add: fold_continue)
  from Cons.IH [OF _ this] have "(relay_step env)\<^sup>*\<^sup>* ?r1 (continue (CReconcile [] as nxt') r')" by simp
  with first show ?case by (rule rtranclp_trans)
qed

lemma add_steps:
  "c_pc r = CReconcile [] as nxt \<Longrightarrow> fold (reconcile_add env) as (nxt, r) = (nxt', r') \<Longrightarrow>
   (relay_step env)\<^sup>*\<^sup>* r (continue (CReconcile [] [] nxt') r')"
proof (induction "as" arbitrary: nxt r r')
  case Nil
  then show ?case by (simp add: continue_id)
next
  case (Cons p "as")
  obtain nxt1 r1 where d: "reconcile_add env p (nxt, r) = (nxt1, r1)" by fastforce
  let ?r1 = "continue (CReconcile [] as nxt1) r1"
  have first: "relay_step env r ?r1" by (rule relay_step.add [OF Cons.prems(1) d])
  have fold_continue: "fold (reconcile_add env) as (n, continue pc s) =
      (case fold (reconcile_add env) as (n, s) of (n', s') \<Rightarrow> (n', continue pc s'))" for n s pc
  proof (induction "as" arbitrary: n s)
    case (Cons q qs)
    obtain n1 s1 where "reconcile_add env q (n, s) = (n1, s1)" by fastforce
    then show ?case using Cons add_continue [of env q n s n1 s1 pc] by simp
  qed simp
  from Cons.prems(2) d have "fold (reconcile_add env) as (nxt1, r1) = (nxt', r')" by simp
  then have "fold (reconcile_add env) as (nxt1, ?r1) = (nxt', continue (CReconcile [] as nxt1) r')"
    by (simp add: fold_continue)
  from Cons.IH [OF _ this] have "(relay_step env)\<^sup>*\<^sup>* ?r1 (continue (CReconcile [] [] nxt') r')" by simp
  then show ?case by (rule converse_rtranclp_into_rtranclp [where r = "relay_step env", OF first])
qed

text \<open>Without interference the steps of a pass end, in the state \<open>reconcile\<close> computes.\<close>

lemma pass_steps:
  assumes "c_pc r = CSelect" and "c_timer r = Some d" and "d \<le> r_now r"
    and "enumerates ds (c_pendingDel r)" and "enumerates as (c_pendingAdd r)"
  shows "(relay_step env)\<^sup>*\<^sup>* r (reconcile env ds as (coord_fire ds as r))"
proof -
  let ?r = "coord_fire ds as r"
  have snap: "r_snap ?r = r_snap r" "c_pc ?r = CReconcile ds as (r_snap r)" by (simp_all add: coord_fire_def)
  obtain nxt1 r1 where d: "fold (reconcile_del env) ds (r_snap r, ?r) = (nxt1, r1)" by fastforce
  let ?r1 = "continue (CReconcile [] as nxt1) r1"
  obtain nxt2 r2 where a: "fold (reconcile_add env) as (nxt1, ?r1) = (nxt2, r2)" by fastforce
  have eq: "reconcile env ds as ?r = reconcile_store nxt2 (continue (CReconcile [] [] nxt2) r2)"
  proof -
    obtain nxt3 r3 where a': "fold (reconcile_add env) as (nxt1, r1) = (nxt3, r3)" by fastforce
    have "fold (reconcile_add env) xs (n, s) = (n3, s3) \<Longrightarrow>
        fold (reconcile_add env) xs (n, continue pc s) = (n3, continue pc s3)" for xs n s n3 s3 pc
    proof (induction xs arbitrary: n s)
      case (Cons x xs)
      obtain n1 s1 where x: "reconcile_add env x (n, s) = (n1, s1)" by fastforce
      with Cons add_continue [OF x, of pc] show ?case by simp
    qed simp
    from this [OF a', of "CReconcile [] as nxt1"] a have "nxt2 = nxt3" "r2 = continue (CReconcile [] as nxt1) r3" by simp_all
    then show ?thesis by (simp add: reconcile_def snap d a' stage_continue)
  qed
  have 1: "relay_step env r ?r" by (rule relay_step.fire [OF assms])
  have 2: "(relay_step env)\<^sup>*\<^sup>* ?r ?r1" by (rule del_steps [OF snap(2) d])
  have 3: "(relay_step env)\<^sup>*\<^sup>* ?r1 (continue (CReconcile [] [] nxt2) r2)" by (rule add_steps [OF _ a]) simp
  have 4: "relay_step env (continue (CReconcile [] [] nxt2) r2) (reconcile env ds as ?r)"
    unfolding eq by (rule relay_step.store) simp
  have "(relay_step env)\<^sup>*\<^sup>* r ?r1" by (rule converse_rtranclp_into_rtranclp [where r = "relay_step env", OF 1 2])
  from rtranclp_trans [OF this 3] 4 show ?thesis by (rule rtranclp.rtrancl_into_rtrancl)
qed

section \<open>Progress\<close>

text \<open>How far the coordinator is from its \<^verbatim>\<open>select\<close> or its return.\<close>

fun pc_measure :: "coord_pc \<Rightarrow> nat" where
  "pc_measure CSelect = 0"
| "pc_measure (CReconcile ds as nxt) = 3 * length ds + length as + 1"
| "pc_measure (CStopping is) = 3 * length is"
| "pc_measure (CCancelled i pc) = pc_measure pc + 2"
| "pc_measure (CClosed i pc) = pc_measure pc + 1"

lemma reconcile_store_pc [simp]: "c_pc (reconcile_store nxt r) = CSelect"
  by (simp add: reconcile_store_def)

text \<open>
  A step of the relay itself: no new intent comes in and the context is not cancelled by it.
\<close>

definition own_step :: "'w relay_env \<Rightarrow> 'w relay \<Rightarrow> 'w relay \<Rightarrow> bool" where
  "own_step env r r' \<longleftrightarrow>
     relay_step env r r' \<and> (h_intents r' = h_intents r \<or> h_intents r' = []) \<and> r_ctxDone r' = r_ctxDone r"

lemma own_stepI:
  "relay_step env r r' \<Longrightarrow> h_intents r' = h_intents r \<or> h_intents r' = [] \<Longrightarrow> r_ctxDone r' = r_ctxDone r \<Longrightarrow>
   own_step env r r'"
  by (simp add: own_step_def)

lemma own_steps_relay: "(own_step env)\<^sup>*\<^sup>* r r' \<Longrightarrow> (relay_step env)\<^sup>*\<^sup>* r r'"
  by (rule mono_rtranclp [rule_format, of "own_step env"]) (simp_all add: own_step_def)

lemma own_steps_ctx: "(own_step env)\<^sup>*\<^sup>* r r' \<Longrightarrow> r_ctxDone r' = r_ctxDone r"
  by (induction rule: rtranclp_induct) (simp_all add: own_step_def)

lemma add_ctx:
  "reconcile_add env p (nxt, r) = (nxt', r') \<Longrightarrow> r_ctxDone r' = r_ctxDone r \<and> h_intents r' = h_intents r"
  by (rule reconcile_add_cases [of nxt p env r]) (auto simp: set_inst_def)

lemma stage_ctx [simp]:
  "r_ctxDone (coord_cancel i r) = r_ctxDone r" "r_ctxDone (coord_close env i r) = r_ctxDone r"
  "r_ctxDone (coord_join env i r) = r_ctxDone r" "h_intents (coord_cancel i r) = h_intents r"
  "h_intents (coord_close env i r) = h_intents r" "h_intents (coord_join env i r) = h_intents r"
  by (auto simp: coord_cancel_def coord_close_def coord_join_def join_inst_def set_inst_def split: option.split)

text \<open>Unless it waits or has returned, the coordinator has a step of its own, which brings it closer.\<close>

lemma coord_progress:
  assumes "c_pc r \<noteq> CSelect" and "c_pc r \<noteq> CStopping []"
  shows "\<exists>r'. own_step env r r' \<and> pc_measure (c_pc r') < pc_measure (c_pc r)"
proof -
  have go: "\<exists>r'. own_step env r r' \<and> pc_measure (c_pc r') < pc_measure (c_pc r)"
    if "relay_step env r (continue pc s)" "h_intents s = h_intents r" "r_ctxDone s = r_ctxDone r"
      "pc_measure pc < pc_measure (c_pc r)" for pc s
    using own_stepI [OF that(1)] that(2-4) by (intro exI [of _ "continue pc s"]) (simp add: continue_def)
  show ?thesis
  proof (cases "c_pc r")
    case (CReconcile ds "as" nxt)
    show ?thesis
    proof (cases ds)
      case (Cons p ds')
      note pc = CReconcile [unfolded Cons]
      show ?thesis
      proof (cases "nxt p")
        case None
        show ?thesis by (rule go [OF relay_step.del_absent [OF pc None]]) (simp_all add: pc)
      next
        case (Some i)
        show ?thesis by (rule go [OF relay_step.del_cancel [OF pc Some]]) (simp_all add: pc)
      qed
    next
      case Nil
      note pc = CReconcile [unfolded Nil]
      show ?thesis
      proof (cases "as")
        case Nil
        note store = relay_step.store [OF pc [unfolded Nil], of env]
        show ?thesis using own_stepI [OF store] pc
          by (intro exI [of _ "reconcile_store nxt r"]) (simp add: reconcile_store_def)
      next
        case (Cons p ps)
        obtain nxt' r' where r': "reconcile_add env p (nxt, r) = (nxt', r')" by fastforce
        show ?thesis by (rule go [OF relay_step.add [OF pc [unfolded Cons] r']]) (simp_all add: pc Cons add_ctx [OF r'])
      qed
    qed
  next
    case (CStopping "is")
    with assms(2) obtain i js where pc: "c_pc r = CStopping (i # js)" by (cases "is") auto
    show ?thesis by (rule go [OF relay_step.stop_cancel [OF pc]]) (simp_all add: pc)
  next
    case (CCancelled i pc')
    show ?thesis by (rule go [OF relay_step.td_close [OF CCancelled]]) (simp_all add: CCancelled)
  next
    case (CClosed i pc')
    show ?thesis by (rule go [OF relay_step.td_join [OF CClosed]]) (simp_all add: CClosed)
  qed (use assms in simp)
qed

lemma coord_settles:
  "\<exists>r'. (own_step env)\<^sup>*\<^sup>* r r' \<and> (c_pc r' = CSelect \<or> c_pc r' = CStopping [])"
proof (induction "pc_measure (c_pc r)" arbitrary: r rule: less_induct)
  case less
  show ?case
  proof (cases "c_pc r = CSelect \<or> c_pc r = CStopping []")
    case False
    with coord_progress [of r env] obtain r1 where 1: "own_step env r r1" "pc_measure (c_pc r1) < pc_measure (c_pc r)"
      by blast
    from less [OF 1(2)] obtain r2 where "(own_step env)\<^sup>*\<^sup>* r1 r2" "c_pc r2 = CSelect \<or> c_pc r2 = CStopping []" by blast
    with converse_rtranclp_into_rtranclp [where r = "own_step env", OF 1(1)] show ?thesis by blast
  qed blast
qed

lemma steps_paths:
  assumes "(relay_step env)\<^sup>*\<^sup>* r r'" and "shape_inv r"
  shows "shape_inv r' \<and> (\<forall>i. r_heap r i \<noteq> None \<longrightarrow> r_heap r' i \<noteq> None)"
  using assms
proof (induction rule: rtranclp_induct)
  case (step y z)
  then have y: "shape_inv y" "\<forall>i. r_heap r i \<noteq> None \<longrightarrow> r_heap y i \<noteq> None" by blast+
  have z: "shape_inv z" "paths_kept (r_heap y) (r_heap z)" using shape_step [OF y(1) step(2)] by blast+
  have "r_heap z i \<noteq> None" if "r_heap y i \<noteq> None" for i
    using z(2) that unfolding paths_kept_def by blast
  with y(2) z(1) show ?case by blast
qed simp

lemma finite_snap:
  assumes "shape_inv r"
  shows "finite (dom (r_snap r))"
proof -
  have "ran (r_snap r) \<subseteq> dom (r_heap r)"
  proof
    fix i assume "i \<in> ran (r_snap r)"
    then obtain p where "(p, i) \<in> Map.graph (r_snap r)" by (auto simp: ran_def Map.graph_def)
    from pointsD [OF points_snap [OF assms] this] show "i \<in> dom (r_heap r)" by blast
  qed
  also have "dom (r_heap r) \<subseteq> {..< r_fresh r}" using assms by (simp add: shape_inv_def)
  finally have fin: "finite (ran (r_snap r))" by (rule finite_subset) simp
  have "inj_on (\<lambda>p. the (r_snap r p)) (dom (r_snap r))"
  proof (rule inj_onI)
    fix p q assume "p \<in> dom (r_snap r)" "q \<in> dom (r_snap r)" "the (r_snap r p) = the (r_snap r q)"
    then obtain i where "r_snap r p = Some i" "r_snap r q = Some i" by auto
    then show "p = q" by (rule points_inj [OF points_snap [OF assms]])
  qed
  moreover have "(\<lambda>p. the (r_snap r p)) ` dom (r_snap r) = ran (r_snap r)" by (force simp: ran_def)
  ultimately show ?thesis using fin finite_imageD by metis
qed

text \<open>
  Once the context is cancelled, both goroutines of \<^verbatim>\<open>Run\<close> can return, by steps of the relay
  alone, from every state whose pointers are in shape.
\<close>

lemma stopping_steps:
  assumes "shape_inv r" and ctx: "r_ctxDone r"
  shows "\<exists>r'. (own_step env)\<^sup>*\<^sup>* r r' \<and> run_returned r'"
proof -
  let ?S = "own_step env"
  obtain r1 where r1: "?S\<^sup>*\<^sup>* r r1" "c_pc r1 = CSelect \<or> c_pc r1 = CStopping []" using coord_settles by blast
  have ctx1: "r_ctxDone r1" using own_steps_ctx [OF r1(1)] ctx by simp
  let ?r3 = "r1\<lparr>b_pc := BStopped\<rparr>"
  have 3: "?S\<^sup>*\<^sup>* r ?r3"
  proof (cases "b_pc r1 = BStopped")
    case True
    then have "?r3 = r1" by simp
    with r1(1) show ?thesis by metis
  next
    case False
    have "?S r1 ?r3" using relay_step.bcast_stop [OF False ctx1] by (rule own_stepI) simp_all
    with r1(1) show ?thesis by (rule rtranclp.rtrancl_into_rtrancl)
  qed
  have inv3: "shape_inv ?r3" using steps_paths [OF own_steps_relay [OF 3] assms(1)] ..
  have stays: "b_pc r'' = BStopped \<and> (c_pc r'' = CSelect \<longrightarrow> False)"
    if "(relay_step env)\<^sup>*\<^sup>* r' r''" "b_pc r' = BStopped" "c_pc r' \<noteq> CSelect" "\<not> in_pass (c_pc r')" "pc_ok (c_pc r')" for r' r''
  proof -
    have "b_pc r'' = BStopped \<and> c_pc r'' \<noteq> CSelect \<and> \<not> in_pass (c_pc r'') \<and> pc_ok (c_pc r'')"
      using that
    proof (induction rule: rtranclp_induct)
      case (step y z)
      then have y: "b_pc y = BStopped" "c_pc y \<noteq> CSelect" "\<not> in_pass (c_pc y)" "pc_ok (c_pc y)" by blast+
      from step(2) y show ?case by cases (auto simp: step_ops worker_take_frame dest: reconcile_add_frame)
    qed blast
    then show ?thesis by blast
  qed
  show ?thesis
  proof (cases "c_pc ?r3 = CSelect")
    case True
    obtain ps where ps: "enumerates ps (dom (r_snap ?r3))"
      using finite_distinct_list [OF finite_snap [OF inv3]] unfolding enumerates_def by blast
    let ?r4 = "continue (CStopping (map (\<lambda>p. the (r_snap ?r3 p)) ps)) (?r3\<lparr>c_timer := None\<rparr>)"
    have "relay_step env ?r3 ?r4" by (rule relay_step.stop [OF True _ ps]) (simp add: ctx1)
    then have "?S ?r3 ?r4" by (rule own_stepI) (simp_all add: continue_def)
    with 3 have 4: "?S\<^sup>*\<^sup>* r ?r4" by (rule rtranclp.rtrancl_into_rtrancl)
    obtain r5 where r5: "?S\<^sup>*\<^sup>* ?r4 r5" "c_pc r5 = CSelect \<or> c_pc r5 = CStopping []" using coord_settles by blast
    have "b_pc r5 = BStopped \<and> c_pc r5 \<noteq> CSelect"
      using stays [OF own_steps_relay [OF r5(1)]] by (simp add: continue_def)
    with r5 4 show ?thesis unfolding run_returned_def by (blast intro: rtranclp_trans)
  next
    case False
    with r1 3 show ?thesis unfolding run_returned_def by (intro exI [of _ ?r3]) simp
  qed
qed

text \<open>Cancelling the context lets \<^verbatim>\<open>Run\<close> return, from every reachable state.\<close>

lemma shutdown_steps:
  assumes "reachable env groups t0 w0 r"
  shows "\<exists>r'. (relay_step env)\<^sup>*\<^sup>* r r' \<and> run_returned r'"
proof -
  have c: "relay_step env r (r\<lparr>r_ctxDone := True\<rparr>)" by (rule relay_step.cancel)
  have "shape_inv (r\<lparr>r_ctxDone := True\<rparr>)" by (rule reachable_shape [OF reachable_step [OF assms c]])
  then obtain r' where "(own_step env)\<^sup>*\<^sup>* (r\<lparr>r_ctxDone := True\<rparr>) r'" "run_returned r'"
    using stopping_steps by fastforce
  then show ?thesis using converse_rtranclp_into_rtranclp [where r = "relay_step env", OF c own_steps_relay] by blast
qed

end
