(* ===== verification/Logging.thy ===== *)
theory Logging
  imports Main
begin

text \<open>
  \<^verbatim>\<open>internal/logging/logging.go\<close>: \<^verbatim>\<open>DebugLazy\<close>. A logger is its minimal level; \<^verbatim>\<open>log\<close> is a
  function of the state it acts on.
\<close>

datatype level = LevelDebug | LevelInfo

definition Enabled :: "level \<Rightarrow> level \<Rightarrow> bool" where
  "Enabled minimum l \<longleftrightarrow> (minimum = LevelDebug \<or> l = LevelInfo)"

definition DebugLazy :: "level option \<Rightarrow> (level \<Rightarrow> 's \<Rightarrow> 's) \<Rightarrow> 's \<Rightarrow> 's" where
  "DebugLazy logger log s =
     (case logger of
        None \<Rightarrow> s
      | Some l \<Rightarrow> if \<not> Enabled l LevelDebug then s else log l s)"

end
