(* ===== verification/RelayMain.thy ===== *)
theory RelayMain
  imports ControlServer RelayInvariants Logging
begin

text \<open>
  \<^verbatim>\<open>cmd/relay/main.go\<close>: \<^verbatim>\<open>run\<close> from the parsed configuration to the exit of the process, as a
  step relation over the relay's own steps, the control server and the signal goroutine.
  The first \<^verbatim>\<open>cancel\<close> fixes the cause of the context; the lemmas connect the states of the
  process to those of the relay, so that what holds of every reachable relay holds here.
\<close>

section \<open>State\<close>

text \<open>
  Where \<^verbatim>\<open>run\<close> is: before the control server is set up; in the loop over the initial
  namespaces; at \<^verbatim>\<open><-ctx.Done()\<close> and \<^verbatim>\<open>wg.Wait()\<close>; at the \<^verbatim>\<open>wg.Wait()\<close> of a control server that
  could not be started; returned, with its error.
\<close>

datatype main_pc =
    MSetup
  | MInitial "string list"
  | MWait
  | MFailed goerr
  | MReturned "goerr option"

datatype control_goroutine = NotStarted | Serving server | Stopped

text \<open>\<open>m_cause\<close> is \<^verbatim>\<open>context.Cause(ctx)\<close>; \<^verbatim>\<open>ctx\<close> is done when it is there.\<close>

record ('w, 'u) process =
  m_pc :: main_pc
  m_cause :: "goerr option"
  m_control :: control_goroutine
  m_relay :: "'w relay"
  m_unix :: 'u

definition ctx_done :: "('w, 'u) process \<Rightarrow> bool" where
  "ctx_done m \<longleftrightarrow> m_cause m \<noteq> None"

text \<open>The \<^verbatim>\<open>cancel\<close> of \<^verbatim>\<open>context.WithCancelCause\<close>; the cause \<^verbatim>\<open>nil\<close> stands for \<^verbatim>\<open>context.Canceled\<close>.\<close>

definition cancel :: "goerr option \<Rightarrow> ('w, 'u) process \<Rightarrow> ('w, 'u) process" where
  "cancel cause m =
     (case m_cause m of
        Some _ \<Rightarrow> m
      | None \<Rightarrow>
          m\<lparr>m_cause := Some (case cause of None \<Rightarrow> Sentinel Canceled | Some err \<Rightarrow> err),
            m_relay := (m_relay m)\<lparr>r_ctxDone := True\<rparr>\<rparr>)"

section \<open>The parts of run\<close>

definition logLevel :: "config \<Rightarrow> level" where
  "logLevel cfg = (if Verbose cfg then LevelDebug else LevelInfo)"

text \<open>The process when its two first goroutines, the signal handler and the relay, are started.\<close>

definition main_start :: "config \<Rightarrow> gotime \<Rightarrow> 'w \<Rightarrow> 'u \<Rightarrow> ('w, 'u) process" where
  "main_start cfg now w u =
     \<lparr>m_pc = MSetup, m_cause = None, m_control = NotStarted, m_relay = relay_New (Groups cfg) now w, m_unix = u\<rparr>"

text \<open>Parsing the configuration and creating the relay, which cannot fail.\<close>

definition run_start ::
  "config_env \<Rightarrow> string list \<Rightarrow> gotime \<Rightarrow> 'w \<Rightarrow> 'u \<Rightarrow> goerr + config \<times> ('w, 'u) process" where
  "run_start env args now w u =
     (case Parse env args of
        Inl err \<Rightarrow> Inl (Wrapf ''configuration error: '' err '''')
      | Inr cfg \<Rightarrow>
          Inr (cfg, main_start cfg now w u))"

definition setup_control :: "'u unix_api \<Rightarrow> config \<Rightarrow> ('w, 'u) process \<Rightarrow> ('w, 'u) process" where
  "setup_control api cfg m =
     (if ControlSocketPath cfg \<noteq> ''''
      then (case NewUnixServer api (ControlSocketPath cfg) (ControlTimeout cfg) (ControlSocketMode cfg)
                   (ControlSocketGroup cfg) (m_unix m) of
          (Inl err, u) \<Rightarrow>
            (cancel (Some err) (m\<lparr>m_unix := u\<rparr>))
              \<lparr>m_pc := MFailed (Wrapf (''failed to start control server ('' @ ControlSocketPath cfg @ ''): '') err '''')\<rparr>
        | (Inr sv, u) \<Rightarrow>
            m\<lparr>m_unix := u, m_control := Serving sv, m_pc := MInitial (InitialNamespaces cfg)\<rparr>)
      else m\<lparr>m_pc := MInitial (InitialNamespaces cfg)\<rparr>)"

text \<open>The goroutine of the control server, when \<^verbatim>\<open>controlServer.Run\<close> has returned \<open>r\<close>.\<close>

definition control_returns :: "goerr option \<Rightarrow> ('w, 'u) process \<Rightarrow> ('w, 'u) process" where
  "control_returns r m =
     (case r of
        None \<Rightarrow> m\<lparr>m_control := Stopped\<rparr>
      | Some err \<Rightarrow> cancel (Some (Wrapf ''control server error: '' err '''')) (m\<lparr>m_control := Stopped\<rparr>))"

text \<open>One turn of the loop over the initial namespaces; \<open>d\<close> is how \<^verbatim>\<open>AddNamespace\<close> goes.\<close>

definition add_initial :: "delivery \<Rightarrow> string \<Rightarrow> string list \<Rightarrow> ('w, 'u) process \<Rightarrow> ('w, 'u) process" where
  "add_initial d nsPath rest m =
     (case AddNamespace d nsPath (m_relay m) of
        (Some err, r) \<Rightarrow>
          let m = m\<lparr>m_relay := r\<rparr>
          in if errors_Is err Canceled \<and> ctx_done m then m\<lparr>m_pc := MWait\<rparr>
             else (cancel (Some (Wrapf (''failed to add initial namespace '' @ nsPath @ '': '') err '''')) m)\<lparr>m_pc := MWait\<rparr>
      | (None, r) \<Rightarrow> m\<lparr>m_relay := r, m_pc := MInitial rest\<rparr>)"

definition run_result :: "goerr \<Rightarrow> goerr option" where
  "run_result cause = (if errors_Is cause Canceled then None else Some cause)"

section \<open>Steps\<close>

text \<open>
  How \<^verbatim>\<open>AddNamespace\<close> can go now: the coordinator takes a command in its \<^verbatim>\<open>select\<close> only, and
  the context's error is there only when it is done.
\<close>

definition deliverable :: "('w, 'u) process \<Rightarrow> delivery \<Rightarrow> bool" where
  "deliverable m d =
     (case d of
        Delivered \<Rightarrow> c_pc (m_relay m) = CSelect
      | CtxBeforeSend err \<Rightarrow> ctx_done m \<and> err = Sentinel Canceled
      | CtxAfterSend err \<Rightarrow> c_pc (m_relay m) = CSelect \<and> ctx_done m \<and> err = Sentinel Canceled)"

text \<open>\<^verbatim>\<open>wg.Wait()\<close> returns: the relay has returned, the control server is not running.\<close>

definition goroutines_returned :: "('w, 'u) process \<Rightarrow> bool" where
  "goroutines_returned m \<longleftrightarrow> run_returned (m_relay m) \<and> (\<forall>sv. m_control m \<noteq> Serving sv)"

text \<open>
  \<open>signal\<close>: the signal goroutine, until the context is done. \<open>request\<close>: a handler of the
  control server records an intent. \<open>serve_end\<close>: \<^verbatim>\<open>Serve\<close> is any function; it reports
  \<^verbatim>\<open>ErrServerClosed\<close> only after the \<^verbatim>\<open>Shutdown\<close> that the end of the context starts.
\<close>

inductive main_step :: "'w relay_env \<Rightarrow> 'u unix_api \<Rightarrow> config \<Rightarrow> ('w, 'u) process \<Rightarrow> ('w, 'u) process \<Rightarrow> bool"
  for env :: "'w relay_env" and api :: "'u unix_api" and cfg :: config where
  signal: "(\<forall>e. m_pc m \<noteq> MReturned e) \<Longrightarrow> main_step env api cfg m (cancel None m)"
| relay: "own_step env (m_relay m) r' \<Longrightarrow> main_step env api cfg m (m\<lparr>m_relay := r'\<rparr>)"
| request: "m_control m = Serving sv \<Longrightarrow> c_pc (m_relay m) = CSelect \<Longrightarrow>
    main_step env api cfg m (m\<lparr>m_relay := coord_accept op p (m_relay m)\<rparr>)"
| serve_end: "m_control m = Serving sv \<Longrightarrow> Server_Run api sv serve (m_unix m) = (r, u) \<Longrightarrow>
    r = None \<longrightarrow> ctx_done m \<Longrightarrow> main_step env api cfg m (control_returns r (m\<lparr>m_unix := u\<rparr>))"
| set_up: "m_pc m = MSetup \<Longrightarrow> main_step env api cfg m (setup_control api cfg m)"
| initial: "m_pc m = MInitial (p # ps) \<Longrightarrow> deliverable m d \<Longrightarrow> main_step env api cfg m (add_initial d p ps m)"
| initial_end: "m_pc m = MInitial [] \<Longrightarrow> main_step env api cfg m (m\<lparr>m_pc := MWait\<rparr>)"
| wait: "m_pc m = MWait \<Longrightarrow> m_cause m = Some cause \<Longrightarrow> goroutines_returned m \<Longrightarrow>
    main_step env api cfg m (m\<lparr>m_pc := MReturned (run_result cause)\<rparr>)"
| failed: "m_pc m = MFailed err \<Longrightarrow> goroutines_returned m \<Longrightarrow>
    main_step env api cfg m (m\<lparr>m_pc := MReturned (Some err)\<rparr>)"

inductive_cases main_stepE: "main_step env api cfg m m'"

lemma run_start_iff:
  "run_start env args now w u = Inr (cfg, m) \<longleftrightarrow> Parse env args = Inr cfg \<and> m = main_start cfg now w u"
  by (auto simp: run_start_def split: sum.splits)

section \<open>The process refines the relay\<close>

definition main_reachable ::
  "'w relay_env \<Rightarrow> 'u unix_api \<Rightarrow> config \<Rightarrow> gotime \<Rightarrow> 'w \<Rightarrow> 'u \<Rightarrow> ('w, 'u) process \<Rightarrow> bool" where
  "main_reachable env api cfg now w u m \<longleftrightarrow> (main_step env api cfg)\<^sup>*\<^sup>* (main_start cfg now w u) m"

lemma main_reachable_start: "main_reachable env api cfg now w u (main_start cfg now w u)"
  by (simp add: main_reachable_def)

lemma main_reachable_steps:
  "main_reachable env api cfg now w u m \<Longrightarrow> (main_step env api cfg)\<^sup>*\<^sup>* m m' \<Longrightarrow> main_reachable env api cfg now w u m'"
  unfolding main_reachable_def by (rule rtranclp_trans)

lemma main_reachable_step:
  "main_reachable env api cfg now w u m \<Longrightarrow> main_step env api cfg m m' \<Longrightarrow> main_reachable env api cfg now w u m'"
  unfolding main_reachable_def by (rule rtranclp.rtrancl_into_rtrancl)

text \<open>
  \<open>process_inv\<close>: the relay's context is the process's, the causes of the waits, and what has
  been set up where.
\<close>

fun place_ok :: "config \<Rightarrow> main_pc \<Rightarrow> control_goroutine \<Rightarrow> bool \<Rightarrow> bool \<Rightarrow> bool" where
  "place_ok cfg MSetup control ctx returned = (control = NotStarted)"
| "place_ok cfg (MInitial ps) control ctx returned = suffix ps (InitialNamespaces cfg)"
| "place_ok cfg MWait control ctx returned = True"
| "place_ok cfg (MFailed err) control ctx returned = (ctx \<and> control = NotStarted)"
| "place_ok cfg (MReturned e) control ctx returned = (ctx \<and> returned \<and> (\<forall>sv. control \<noteq> Serving sv))"

definition process_inv :: "config \<Rightarrow> ('w, 'u) process \<Rightarrow> bool" where
  "process_inv cfg m \<longleftrightarrow>
     r_ctxDone (m_relay m) = ctx_done m
     \<and> place_ok cfg (m_pc m) (m_control m) (ctx_done m) (run_returned (m_relay m))"

lemma place_ok_mono:
  "place_ok cfg pc control ctx returned \<Longrightarrow> (ctx \<Longrightarrow> ctx') \<Longrightarrow> (returned \<Longrightarrow> returned') \<Longrightarrow>
   place_ok cfg pc control ctx' returned'"
  by (cases pc) auto

lemma cancel_fields [simp]:
  "m_pc (cancel c m) = m_pc m" "m_control (cancel c m) = m_control m" "m_unix (cancel c m) = m_unix m"
  "ctx_done (cancel c m)"
  by (auto simp: cancel_def ctx_done_def split: option.split)

lemma cancel_relay:
  "m_relay (cancel c m) = m_relay m \<or> m_relay (cancel c m) = (m_relay m)\<lparr>r_ctxDone := True\<rparr>"
  by (auto simp: cancel_def split: option.split)

lemma cancel_ctx: "r_ctxDone (m_relay m) = ctx_done m \<Longrightarrow> r_ctxDone (m_relay (cancel c m))"
  by (auto simp: cancel_def ctx_done_def split: option.split)

text \<open>The first cause stays.\<close>

lemma cancel_cause: "m_cause m = Some c \<Longrightarrow> cancel d m = m"
  by (simp add: cancel_def)

lemma add_initial_cases:
  assumes "deliverable m d"
  obtains (taken) "d = Delivered" "c_pc (m_relay m) = CSelect"
      "add_initial d p ps m = m\<lparr>m_relay := coord_accept nsCmdAdd p (m_relay m), m_pc := MInitial ps\<rparr>"
  | (unsent) "ctx_done m" "add_initial d p ps m = m\<lparr>m_pc := MWait\<rparr>"
  | (sent) "ctx_done m" "c_pc (m_relay m) = CSelect"
      "add_initial d p ps m = m\<lparr>m_relay := coord_accept nsCmdAdd p (m_relay m), m_pc := MWait\<rparr>"
proof (cases d)
  case Delivered
  with assms show ?thesis
    by (intro taken) (simp_all add: deliverable_def add_initial_def AddNamespace_def submit_def)
next
  case (CtxBeforeSend e)
  with assms show ?thesis
    by (intro unsent) (simp_all add: deliverable_def add_initial_def AddNamespace_def submit_def ctx_done_def)
next
  case (CtxAfterSend e)
  with assms show ?thesis
    by (intro sent) (simp_all add: deliverable_def add_initial_def AddNamespace_def submit_def ctx_done_def)
qed

text \<open>A step of the process is a step of the relay or leaves it alone.\<close>

lemma main_step_relay:
  assumes "main_step env api cfg m m'"
  shows "m_relay m' = m_relay m \<or> relay_step env (m_relay m) (m_relay m')"
proof -
  have c: "m_relay (cancel x n) = m_relay n \<or> relay_step env (m_relay n) (m_relay (cancel x n))" for x n
    using cancel_relay [of x n] relay_step.cancel [of env "m_relay n"] by metis
  from assms show ?thesis
  proof cases
    case signal
    with c [of None m] show ?thesis by simp
  next
    case (request sv op p)
    with relay_step.accept [of "m_relay m" env op p] show ?thesis by simp
  next
    case (serve_end sv serve r u)
    with c [of _ "m\<lparr>m_unix := u, m_control := Stopped\<rparr>"] show ?thesis
      by (cases r) (auto simp: control_returns_def)
  next
    case set_up
    with c [of _ "m\<lparr>m_unix := _\<rparr>"] show ?thesis
      by (auto simp: setup_control_def split: prod.split sum.split)
  next
    case (initial p ps d)
    from initial(3) show ?thesis
      by (rule add_initial_cases [where p = p and ps = ps]) (use initial(1) relay_step.accept in \<open>auto\<close>)
  qed (auto simp: own_step_def)
qed

lemma main_relay_reachable:
  assumes "main_reachable env api cfg now w u m"
  shows "reachable env (Groups cfg) now w (m_relay m)"
  using assms unfolding main_reachable_def
proof (induction rule: rtranclp_induct)
  case base
  show ?case by (simp add: main_start_def reachable_New)
next
  case (step y z)
  with main_step_relay [OF step(2)] show ?case by (metis reachable_step)
qed

section \<open>Invariants of the process\<close>

lemma run_returned_step:
  assumes "relay_step env r r'" and "run_returned r"
  shows "run_returned r'"
proof -
  from assms(2) have pc: "c_pc r = CStopping []" "b_pc r = BStopped" by (simp_all add: run_returned_def)
  from assms(1) have "c_pc r' = CStopping [] \<and> b_pc r' = BStopped"
    by cases (use pc in \<open>auto simp: step_ops worker_take_frame\<close>)
  then show ?thesis by (simp add: run_returned_def)
qed

lemma process_inv_start: "process_inv cfg (main_start cfg now w u)"
  by (simp add: process_inv_def main_start_def relay_New_def ctx_done_def)

lemma coord_accept_ctx: "r_ctxDone (coord_accept op p r) = r_ctxDone r"
  by (auto simp: coord_accept_def Let_def split: nsCmdType.split)

lemma cancel_inv:
  assumes "process_inv cfg m"
  shows "process_inv cfg (cancel c m)"
proof -
  have "run_returned (m_relay (cancel c m)) = run_returned (m_relay m)"
    using cancel_relay [of c m] by (auto simp: run_returned_def)
  with assms cancel_ctx [of m c] show ?thesis by (auto simp: process_inv_def elim: place_ok_mono)
qed

lemma ctx_done_update [simp]:
  "ctx_done (m\<lparr>m_relay := r\<rparr>) = ctx_done m" "ctx_done (m\<lparr>m_pc := pc\<rparr>) = ctx_done m"
  "ctx_done (m\<lparr>m_unix := u\<rparr>) = ctx_done m" "ctx_done (m\<lparr>m_control := k\<rparr>) = ctx_done m"
  by (simp_all add: ctx_done_def)

lemma process_inv_step:
  assumes inv: "process_inv cfg m" and step: "main_step env api cfg m m'"
  shows "process_inv cfg m'"
  using step
proof cases
  case signal
  show ?thesis unfolding signal(1) by (rule cancel_inv [OF inv])
next
  case (relay r')
  have "run_returned (m_relay m) \<Longrightarrow> run_returned r'"
    using run_returned_step relay(2) unfolding own_step_def by blast
  moreover have "r_ctxDone r' = r_ctxDone (m_relay m)" using relay(2) by (simp add: own_step_def)
  ultimately show ?thesis using inv unfolding relay(1)
    by (auto simp: process_inv_def elim: place_ok_mono)
next
  case (request sv op p)
  then have "\<not> run_returned (m_relay m)" by (simp add: run_returned_def)
  with inv show ?thesis unfolding request(1)
    by (auto simp: process_inv_def coord_accept_ctx elim: place_ok_mono)
next
  case (serve_end sv serve r u)
  let ?m = "m\<lparr>m_unix := u, m_control := Stopped\<rparr>"
  have 1: "process_inv cfg ?m"
    using inv serve_end(2) by (cases "m_pc m") (simp_all add: process_inv_def)
  then show ?thesis using cancel_inv [of cfg ?m] unfolding serve_end(1) control_returns_def
    by (cases r) simp_all
next
  case set_up
  have nc: "m_control m = NotStarted" using inv set_up(2) by (simp add: process_inv_def)
  have 1: "process_inv cfg (m\<lparr>m_unix := u\<rparr>)" for u using inv by (simp add: process_inv_def)
  have "r_ctxDone (m_relay (cancel c (m\<lparr>m_unix := u\<rparr>)))" for c u
    using cancel_inv [OF 1, of c u] by (simp add: process_inv_def)
  then show ?thesis using inv nc unfolding set_up(1) setup_control_def
    by (auto simp: process_inv_def split: prod.split sum.split)
next
  case (initial p ps d)
  have suf: "suffix ps (InitialNamespaces cfg)"
    using inv initial(2) by (auto simp: process_inv_def suffix_def)
  from initial(3) show ?thesis unfolding initial(1)
    by (rule add_initial_cases [where p = p and ps = ps])
      (use inv suf in \<open>simp_all add: process_inv_def coord_accept_ctx\<close>)
next
  case (wait cause)
  then show ?thesis using inv by (simp add: process_inv_def goroutines_returned_def ctx_done_def)
next
  case (failed err)
  then show ?thesis using inv by (simp add: process_inv_def goroutines_returned_def)
qed (use inv in \<open>simp add: process_inv_def\<close>)

lemma main_reachable_inv: "main_reachable env api cfg now w u m \<Longrightarrow> process_inv cfg m"
  unfolding main_reachable_def
  by (induction rule: rtranclp_induct) (auto intro: process_inv_start process_inv_step)

section \<open>Why the process ends\<close>

text \<open>The causes: a signal, the start or the end of the control server.\<close>

definition control_error :: "config \<Rightarrow> goerr \<Rightarrow> bool" where
  "control_error cfg err \<longleftrightarrow>
     ControlSocketPath cfg \<noteq> ''''
     \<and> (\<exists>e. err = Wrapf ''control server error: '' e ''''
          \<or> err = Wrapf (''failed to start control server ('' @ ControlSocketPath cfg @ ''): '') e '''')"

definition cause_ok :: "config \<Rightarrow> goerr option \<Rightarrow> bool" where
  "cause_ok cfg cause \<longleftrightarrow> (\<forall>c. cause = Some c \<longrightarrow> c = Sentinel Canceled \<or> control_error cfg c)"

text \<open>\<open>MFailed\<close> and \<open>MReturned\<close> hold the error that leaves the process.\<close>

fun pc_error_ok :: "config \<Rightarrow> main_pc \<Rightarrow> goerr option \<Rightarrow> bool" where
  "pc_error_ok cfg (MFailed err) cause = control_error cfg err"
| "pc_error_ok cfg (MReturned None) cause = True"
| "pc_error_ok cfg (MReturned (Some err)) cause = control_error cfg err"
| "pc_error_ok cfg pc cause = cause_ok cfg cause"

definition cause_inv :: "config \<Rightarrow> ('w, 'u) process \<Rightarrow> bool" where
  "cause_inv cfg m \<longleftrightarrow>
     pc_error_ok cfg (m_pc m) (m_cause m) \<and> (ControlSocketPath cfg = '''' \<longrightarrow> m_control m = NotStarted)"

lemma cancel_cases:
  obtains "cancel c m = m" | "m_cause (cancel c m) = Some (case c of None \<Rightarrow> Sentinel Canceled | Some e \<Rightarrow> e)"
  by (cases "m_cause m") (simp_all add: cancel_def)

lemma cause_inv_cancel:
  assumes inv: "cause_inv cfg m" and "\<And>e. c = Some e \<Longrightarrow> control_error cfg e"
  shows "cause_inv cfg (cancel c m)"
proof (rule cancel_cases [of c m])
  let ?c = "m_cause (cancel c m)"
  assume "?c = Some (case c of None \<Rightarrow> Sentinel Canceled | Some e \<Rightarrow> e)"
  with assms(2) have ok: "cause_ok cfg ?c" by (cases c) (auto simp: cause_ok_def)
  have "pc_error_ok cfg (m_pc m) ?c" if "pc_error_ok cfg (m_pc m) (m_cause m)"
    using that ok by (cases "(cfg, m_pc m, m_cause m)" rule: pc_error_ok.cases) simp_all
  with inv show ?thesis by (simp add: cause_inv_def)
qed (use inv in simp)

lemma cause_inv_step:
  assumes inv: "cause_inv cfg m" and step: "main_step env api cfg m m'"
  shows "cause_inv cfg m'"
  using step
proof cases
  case signal
  show ?thesis unfolding signal(1) by (rule cause_inv_cancel [OF inv]) simp
next
  case (serve_end sv serve r u)
  have on: "ControlSocketPath cfg \<noteq> ''''" using inv serve_end(2) by (auto simp: cause_inv_def)
  have 1: "cause_inv cfg (m\<lparr>m_unix := u, m_control := Stopped\<rparr>)" using inv on by (simp add: cause_inv_def)
  have "cause_inv cfg (cancel (Some (Wrapf ''control server error: '' e '''')) (m\<lparr>m_unix := u, m_control := Stopped\<rparr>))" for e
    by (rule cause_inv_cancel [OF 1]) (auto simp: control_error_def on)
  with 1 show ?thesis unfolding serve_end(1) control_returns_def by (cases r) simp_all
next
  case set_up
  then show ?thesis using inv unfolding set_up(1) setup_control_def
    by (auto simp: cause_inv_def control_error_def split: prod.split sum.split)
next
  case (initial p ps d)
  from initial(3) show ?thesis unfolding initial(1)
    by (rule add_initial_cases [where p = p and ps = ps]) (use inv initial(2) in \<open>simp_all add: cause_inv_def\<close>)
next
  case (wait c)
  with inv show ?thesis by (auto simp: cause_inv_def cause_ok_def run_result_def)
qed (use inv in \<open>simp_all add: cause_inv_def\<close>)

lemma main_reachable_cause: "main_reachable env api cfg now w u m \<Longrightarrow> cause_inv cfg m"
  unfolding main_reachable_def
proof (induction rule: rtranclp_induct)
  case base
  show ?case by (simp add: cause_inv_def main_start_def cause_ok_def)
next
  case (step y z)
  show ?case by (rule cause_inv_step [OF step(3,2)])
qed

section \<open>A cancelled process can return\<close>

lemma own_steps_main:
  "(own_step env)\<^sup>*\<^sup>* (m_relay m) r' \<Longrightarrow> (main_step env api cfg)\<^sup>*\<^sup>* m (m\<lparr>m_relay := r'\<rparr>)"
proof (induction rule: rtranclp_induct)
  case (step y z)
  from main_step.relay [of env "m\<lparr>m_relay := y\<rparr>" z api cfg] step(2)
  have "main_step env api cfg (m\<lparr>m_relay := y\<rparr>) (m\<lparr>m_relay := z\<rparr>)" by simp
  with step(3) show ?case by (rule rtranclp.rtrancl_into_rtrancl)
qed simp

text \<open>\<^verbatim>\<open>run\<close> comes to one of its two waits.\<close>

lemma main_to_wait:
  assumes "ctx_done m" and "\<forall>e. m_pc m \<noteq> MReturned e"
  shows "\<exists>m'. (main_step env api cfg)\<^sup>*\<^sup>* m m' \<and> ctx_done m' \<and> (m_pc m' = MWait \<or> (\<exists>err. m_pc m' = MFailed err))"
proof -
  have init: "\<exists>m'. (main_step env api cfg)\<^sup>*\<^sup>* m m' \<and> ctx_done m' \<and> m_pc m' = MWait"
    if "m_pc m = MInitial ps" "ctx_done m" for m :: "('a, 'b) process" and ps
  proof (cases ps)
    case Nil
    have "main_step env api cfg m (m\<lparr>m_pc := MWait\<rparr>)"
      by (rule main_step.initial_end) (use that Nil in simp)
    then have "(main_step env api cfg)\<^sup>*\<^sup>* m (m\<lparr>m_pc := MWait\<rparr>)" ..
    with that(2) show ?thesis by (intro exI [of _ "m\<lparr>m_pc := MWait\<rparr>"]) simp
  next
    case (Cons p qs)
    let ?d = "CtxBeforeSend (Sentinel Canceled)"
    have "main_step env api cfg m (add_initial ?d p qs m)"
      by (rule main_step.initial) (use that Cons in \<open>simp_all add: deliverable_def\<close>)
    then have "(main_step env api cfg)\<^sup>*\<^sup>* m (add_initial ?d p qs m)" ..
    moreover have "add_initial ?d p qs m = m\<lparr>m_pc := MWait\<rparr>"
      using that(2) by (simp add: add_initial_def AddNamespace_def submit_def)
    ultimately have "(main_step env api cfg)\<^sup>*\<^sup>* m (m\<lparr>m_pc := MWait\<rparr>)" by simp
    with that(2) show ?thesis by (intro exI [of _ "m\<lparr>m_pc := MWait\<rparr>"]) simp
  qed
  show ?thesis
  proof (cases "m_pc m")
    case MSetup
    let ?m = "setup_control api cfg m"
    have step: "main_step env api cfg m ?m" by (rule main_step.set_up) fact
    have "ctx_done ?m \<and> ((\<exists>ps. m_pc ?m = MInitial ps) \<or> (\<exists>err. m_pc ?m = MFailed err))"
      using assms(1) by (auto simp: setup_control_def split: prod.split sum.split)
    then consider ps where "ctx_done ?m" "m_pc ?m = MInitial ps" | err where "ctx_done ?m" "m_pc ?m = MFailed err"
      by blast
    then show ?thesis
    proof cases
      case (1 ps)
      from init [OF this(2,1)] show ?thesis
        using converse_rtranclp_into_rtranclp [where r = "main_step env api cfg", OF step] by blast
    next
      case 2
      from step have "(main_step env api cfg)\<^sup>*\<^sup>* m ?m" ..
      with 2 show ?thesis by blast
    qed
  next
    case (MInitial ps)
    from init [OF this assms(1)] show ?thesis by blast
  qed (use assms in blast)+
qed

lemma main_finishes:
  assumes "shape_inv (m_relay m)" and ctx: "r_ctxDone (m_relay m)" "ctx_done m"
    and "m_pc m = MWait \<or> (\<exists>err. m_pc m = MFailed err)"
  shows "\<exists>m' e. (main_step env api cfg)\<^sup>*\<^sup>* m m' \<and> m_pc m' = MReturned e"
proof -
  let ?S = "main_step env api cfg"
  obtain m1 where m1: "?S\<^sup>*\<^sup>* m m1" "\<forall>sv. m_control m1 \<noteq> Serving sv" "m_relay m1 = m_relay m" "m_pc m1 = m_pc m" "ctx_done m1"
  proof (cases "\<exists>sv. m_control m = Serving sv")
    case True
    then obtain sv where sv: "m_control m = Serving sv" by blast
    let ?serve = "\<lambda>l u. (Sentinel ServerClosed, u)"
    obtain u where u: "Server_Run api sv ?serve (m_unix m) = (None, u)" by (simp add: Server_Run_def Let_def)
    have "?S m (control_returns None (m\<lparr>m_unix := u\<rparr>))"
      by (rule main_step.serve_end [OF sv u]) (use ctx in simp)
    then have "?S\<^sup>*\<^sup>* m (m\<lparr>m_unix := u, m_control := Stopped\<rparr>)" by (simp add: control_returns_def)
    with that [of "m\<lparr>m_unix := u, m_control := Stopped\<rparr>"] ctx show ?thesis by simp
  next
    case False
    with that [of m] ctx show ?thesis by simp
  qed
  obtain r' where r': "(own_step env)\<^sup>*\<^sup>* (m_relay m1) r'" "run_returned r'"
    using stopping_steps [OF assms(1) ctx(1)] m1(3) by metis
  let ?m2 = "m1\<lparr>m_relay := r'\<rparr>"
  have 2: "?S\<^sup>*\<^sup>* m ?m2" by (rule rtranclp_trans [OF m1(1) own_steps_main [OF r'(1)]])
  have ret: "goroutines_returned ?m2" using r'(2) m1(2) by (simp add: goroutines_returned_def)
  show ?thesis
  proof (cases "m_pc m = MWait")
    case True
    from m1(5) obtain c where "m_cause m1 = Some c" by (auto simp: ctx_done_def)
    then have "?S ?m2 (?m2\<lparr>m_pc := MReturned (run_result c)\<rparr>)"
      by (intro main_step.wait [OF _ _ ret]) (simp_all add: m1(4) True)
    with 2 have "?S\<^sup>*\<^sup>* m (?m2\<lparr>m_pc := MReturned (run_result c)\<rparr>)" by (rule rtranclp.rtrancl_into_rtrancl)
    then show ?thesis by (intro exI conjI) (assumption, simp)
  next
    case False
    with assms(4) obtain err where "m_pc m = MFailed err" by blast
    then have "?S ?m2 (?m2\<lparr>m_pc := MReturned (Some err)\<rparr>)"
      by (intro main_step.failed [OF _ ret]) (simp add: m1(4))
    with 2 have "?S\<^sup>*\<^sup>* m (?m2\<lparr>m_pc := MReturned (Some err)\<rparr>)" by (rule rtranclp.rtrancl_into_rtrancl)
    then show ?thesis by (intro exI conjI) (assumption, simp)
  qed
qed

end
