(* ===== verification/RelayDelivery.thy ===== *)
theory RelayDelivery
  imports RelayInvariants
begin

text \<open>
  The way of one packet through the running relay of \<^verbatim>\<open>internal/relay/relay.go\<close>: a receiver
  reads it, hands it to the broadcast channel, the broadcast loop takes it and visits a
  destination, whose send worker writes it. The lemmas build the steps of that way from a
  state in which the broadcast loop is idle. The locale \<open>socket_package\<close> is what the relay
  relies on of \<^verbatim>\<open>internal/socket\<close>; its interpretation is this repository's package.
\<close>

lemma steps_trans2:
  assumes "relay_step env a b" and "relay_step env b c"
  shows "(relay_step env)\<^sup>*\<^sup>* a c"
  by (rule converse_rtranclp_into_rtranclp [where r = "relay_step env", OF assms(1)],
      rule r_into_rtranclp [where r = "relay_step env", OF assms(2)])

text \<open>What the socket \<open>k\<close> of an instance can read now.\<close>

definition can_read :: "'w relay \<Rightarrow> nsInstance \<Rightarrow> nat \<Rightarrow> packet \<Rightarrow> bool" where
  "can_read r inst k pkt \<longleftrightarrow>
     (\<exists>ev x. k < length (ni_sockets inst) \<and> ni_holding inst k = None
        \<and> ev_recent ev = recentTx (ni_sockets inst ! k) \<and> ev_now ev = r_now r
        \<and> ReadFrom_loop [ev] = Some (Inr x)
        \<and> pkt = received_packet (ni_sockets inst ! k) (ni_path inst) x)"

lemma can_read_path: "can_read r inst k pkt \<Longrightarrow> SourcePath pkt = ni_path inst \<and> Data pkt \<noteq> None"
  by (auto simp: can_read_def received_packet_def)

text \<open>The first two steps: the packet is at the end of the broadcast channel.\<close>

lemma receive_steps:
  assumes "r_heap r i = Some inst" and "\<not> ni_joined inst" and "can_read r inst k pkt"
    and "length (r_broadcastCh r) < ChannelBuffer"
  obtains r' where "(relay_step env)\<^sup>*\<^sup>* r r'"
    and "r' = r\<lparr>r_heap := (r_heap r)(i \<mapsto> inst), r_broadcastCh := r_broadcastCh r @ [pkt],
              h_received := insert pkt (h_received r)\<rparr>"
proof -
  from assms(3) obtain ev x where ev: "k < length (ni_sockets inst)" "ni_holding inst k = None"
    "ev_recent ev = recentTx (ni_sockets inst ! k)" "ev_now ev = r_now r" "ReadFrom_loop [ev] = Some (Inr x)"
    and pkt: "pkt = received_packet (ni_sockets inst ! k) (ni_path inst) x"
    unfolding can_read_def by blast
  let ?r1 = "receive_read i inst k pkt r"
  let ?inst1 = "inst\<lparr>ni_holding := (ni_holding inst)(k \<mapsto> pkt)\<rparr>"
  have 1: "relay_step env r ?r1" unfolding pkt by (rule relay_step.read [OF assms(1,2) ev])
  have h1: "r_heap ?r1 i = Some ?inst1" by (simp add: receive_read_def set_inst_def)
  have 2: "relay_step env ?r1 (receive_push i ?inst1 k pkt ?r1)"
    by (rule relay_step.push [OF h1]) (use assms(2,4) in \<open>simp_all add: receive_read_def set_inst_def\<close>)
  have "(ni_holding inst)(k := None) = ni_holding inst" using ev(2) by auto
  then have eq: "receive_push i ?inst1 k pkt ?r1 = r\<lparr>r_heap := (r_heap r)(i \<mapsto> inst),
      r_broadcastCh := r_broadcastCh r @ [pkt], h_received := insert pkt (h_received r)\<rparr>"
    by (simp add: receive_push_def receive_read_def set_inst_def)
  show thesis
  proof (rule that)
    show "(relay_step env)\<^sup>*\<^sup>* r (receive_push i ?inst1 k pkt ?r1)" by (rule steps_trans2 [OF 1 2])
  qed (rule eq)
qed

text \<open>The broadcast loop takes the packet and visits a destination first.\<close>

lemma delivery_steps:
  assumes idle: "b_pc r = BSelect" "r_broadcastCh r = []" "\<not> r_ctxDone r" and "shape_inv r"
    and source: "r_heap r i = Some inst" "\<not> ni_joined inst" "can_read r inst k pkt"
    and passes: "mw_Process (r_now r) (r_middleware r) pkt = (m, pkt)"
    and dest: "r_snap r q = Some j" "r_heap r j = Some dst" "q \<noteq> ni_path inst" "\<not> ni_done dst"
      "length (ni_sendCh dst) < ChannelBuffer"
  obtains r' where "(relay_step env)\<^sup>*\<^sup>* r r'"
    and "r_heap r' j = Some (dst\<lparr>ni_sendCh := ni_sendCh dst @ [pkt]\<rparr>)"
proof -
  have cap: "length (r_broadcastCh r) < ChannelBuffer" by (simp add: idle ChannelBuffer_def)
  obtain r2 where 2: "(relay_step env)\<^sup>*\<^sup>* r r2"
    and r2: "r2 = r\<lparr>r_heap := (r_heap r)(i \<mapsto> inst), r_broadcastCh := r_broadcastCh r @ [pkt],
              h_received := insert pkt (h_received r)\<rparr>"
    using receive_steps [OF source cap] by blast
  have same: "(r_heap r)(i \<mapsto> inst) = r_heap r" using source(1) by auto
  have f2: "r_broadcastCh r2 = [pkt]" "r_heap r2 = r_heap r" "r_snap r2 = r_snap r" "b_pc r2 = BSelect"
    "r_now r2 = r_now r" "r_middleware r2 = r_middleware r" "\<not> r_ctxDone r2"
    by (simp_all add: r2 idle same)
  obtain rest where order: "enumerates (q # rest) (dom (r_snap r))"
  proof -
    have "finite (dom (r_snap r) - {q})" using finite_snap [OF assms(4)] by simp
    from finite_distinct_list [OF this] obtain rest where rest: "set rest = dom (r_snap r) - {q}" "distinct rest"
      by (elim exE conjE)
    have "q \<in> dom (r_snap r)" using dest(1) by (rule domI)
    then have "enumerates (q # rest) (dom (r_snap r))" using rest by (simp add: enumerates_def insert_absorb)
    then show thesis by (rule that)
  qed
  let ?r3 = "bcast_take (q # rest) r2"
  have data: "Data pkt \<noteq> None" "SourcePath pkt = ni_path inst" using can_read_path [OF source(3)] by simp_all
  have 3: "relay_step env r2 ?r3" by (rule relay_step.take) (use f2 order in simp_all)
  have eq3: "?r3 = (let r' = r2\<lparr>r_broadcastCh := [], r_middleware := m, h_processed := h_processed r2 @ [(r_now r2, pkt)]\<rparr>
      in if Data pkt = None then r'
         else r'\<lparr>b_pc := BFan pkt (map (\<lambda>p. (p, the (r_snap r2 p))) (q # rest)),
                 h_fanout := h_fanout r2 @ [(r_now r2, pkt)]\<rparr>)"
    by (rule bcast_take_eq [OF f2(1)]) (simp add: f2 passes)
  let ?ds = "map (\<lambda>p. (p, the (r_snap r2 p))) rest"
  have f3: "b_pc ?r3 = BFan pkt ((q, j) # ?ds)" "r_heap ?r3 = r_heap r" "\<not> r_ctxDone ?r3"
    using data(1) by (simp_all add: eq3 Let_def f2 dest(1))
  let ?r4 = "(fanout_one pkt q j ?r3)\<lparr>b_pc := BFan pkt ?ds\<rparr>"
  have 4: "relay_step env ?r3 ?r4" by (rule relay_step.fan [OF f3(1)])
  have "r_heap ?r4 j = Some (dst\<lparr>ni_sendCh := ni_sendCh dst @ [pkt]\<rparr>)"
    using fanout_one_heap [of ?r3 j dst pkt q] dest f3(2,3) data(2) by (simp add: inst_ctx_done_def)
  moreover have "(relay_step env)\<^sup>*\<^sup>* r ?r4"
    using 2 3 4 by (meson rtranclp.rtrancl_into_rtrancl)
  ultimately show thesis by (rule that [rotated])
qed

section \<open>The send workers\<close>

lemma reachable_steps:
  "reachable env groups t0 w0 r \<Longrightarrow> (relay_step env)\<^sup>*\<^sup>* r r' \<Longrightarrow> reachable env groups t0 w0 r'"
  unfolding reachable_def by simp

text \<open>A queued packet finds a socket of its group.\<close>

lemma queued_socket:
  assumes "keeps_group env" and "write_keeps_group env" and "reachable env groups t0 w0 r"
    and "r_heap r i = Some inst" and "pkt \<in> set (ni_sendCh inst)"
  obtains k where "ni_socketsByGroup inst (groupKeyFromUDPAddr (Group pkt)) = Some k" and "k < length (ni_sockets inst)"
    and "groupKeyFromUDPAddr (Some (sock_Group (ni_sockets inst ! k))) = groupKeyFromUDPAddr (Group pkt)"
proof -
  have inv: "groups_inv groups r" by (rule reachable_groups [OF assms(1-3)])
  have "queue_ok (fanned r) (h_received r) inst" "fanned r \<subseteq> h_received r"
    using packet_invD(1,4) [OF reachable_packets [OF assms(3)]] assms(4) by blast+
  then have "pkt \<in> h_received r" using assms(5) by (auto simp: queue_ok_def)
  then obtain g where g: "g \<in> set groups" "Group pkt = Some g" using groups_invD(3) [OF inv] by blast
  have ix: "indexed_by_group groups (ni_sockets inst) (ni_socketsByGroup inst)" by (rule groups_invD(2) [OF inv assms(4)])
  with g(1) have "groupKeyFromUDPAddr (Some g) \<in> dom (ni_socketsByGroup inst)" by (simp add: indexed_by_group_def)
  then obtain k where k: "ni_socketsByGroup inst (groupKeyFromUDPAddr (Some g)) = Some k" by blast
  with ix have "k < length (ni_sockets inst) \<and> groupKeyFromUDPAddr (Some (sock_Group (ni_sockets inst ! k)))
      = groupKeyFromUDPAddr (Some g)" by (simp add: indexed_by_group_def)
  with k that show thesis unfolding g(2) by blast
qed

text \<open>
  What the relay relies on of the socket package: sockets are of the group they were made
  for, writing does not change that, and a write to a sendable group returns (with a count
  or an error).
\<close>

locale socket_package =
  fixes env :: "'w relay_env" and sendable :: "udp_addr \<Rightarrow> bool"
  assumes keeps_group: "keeps_group env"
    and write_keeps_group: "write_keeps_group env"
    and writes: "sendable (sock_Group s) \<Longrightarrow> env_WriteToGroup env s d src ttl w \<noteq> None"
begin

lemma socket_writes:
  assumes "reachable env groups t0 w0 r" and "\<forall>g \<in> set groups. sendable g" and "r_heap r i = Some inst"
    and "ni_socketsByGroup inst key = Some k"
  shows "env_WriteToGroup env (ni_sockets inst ! k) d src ttl w \<noteq> None"
proof (rule writes)
  have ix: "indexed_by_group groups (ni_sockets inst) (ni_socketsByGroup inst)"
    by (rule groups_invD(2) [OF reachable_groups [OF keeps_group write_keeps_group assms(1)] assms(3)])
  then have k: "k < length (ni_sockets inst)" using assms(4) by (simp add: indexed_by_group_def)
  then have "sock_Group (ni_sockets inst ! k) \<in> set (map sock_Group (ni_sockets inst))" by simp
  then have "sock_Group (ni_sockets inst ! k) \<in> set groups" using ix by (simp only: indexed_by_group_def)
  with assms(2) show "sendable (sock_Group (ni_sockets inst ! k))" by blast
qed

lemma worker_returns:
  assumes "reachable env groups t0 w0 r" and "\<forall>g \<in> set groups. sendable g"
  shows "worker_take env i r \<noteq> None"
proof (cases "r_heap r i")
  case (Some inst)
  show ?thesis
  proof (cases "ni_sendCh inst")
    case (Cons pkt rest)
    show ?thesis
    proof (cases "ni_socketsByGroup inst (groupKeyFromUDPAddr (Group pkt))")
      case None
      with Some Cons show ?thesis by (simp add: worker_take_def Let_def)
    next
      case k: (Some k)
      from socket_writes [OF assms Some k, of "bytes_of (Data pkt)" "Source pkt" "TTL pkt" "r_world r"] Some Cons k
      show ?thesis by (auto simp: worker_take_def Let_def)
    qed
  qed (simp add: worker_take_def Some)
qed (simp add: worker_take_def)

text \<open>The worker writes the packet at the head of its queue.\<close>

lemma worker_writes:
  assumes "reachable env groups t0 w0 r" and "\<forall>g \<in> set groups. sendable g"
    and "r_heap r j = Some dst" and "\<not> ni_joined dst" and q: "ni_sendCh dst = pkt # rest"
  obtains r' dst' where "relay_step env r r'" and "(ni_path dst, pkt) \<in> h_written r'"
    and "r_heap r' j = Some dst'" and "ni_path dst' = ni_path dst" and "\<not> ni_joined dst'" and "ni_sendCh dst' = rest"
proof -
  have "pkt \<in> set (ni_sendCh dst)" by (simp add: q)
  from queued_socket [OF keeps_group write_keeps_group assms(1,3) this]
  obtain k where k: "ni_socketsByGroup dst (groupKeyFromUDPAddr (Group pkt)) = Some k" by blast
  obtain res sock w where wr: "env_WriteToGroup env (ni_sockets dst ! k) (bytes_of (Data pkt)) (Source pkt) (TTL pkt) (r_world r)
      = Some (res, sock, w)" using socket_writes [OF assms(1-3) k] by (metis not_None_eq prod_cases3)
  let ?dst = "dst\<lparr>ni_sendCh := rest, ni_sockets := (ni_sockets dst)[k := sock]\<rparr>"
  let ?r' = "set_inst j ?dst (r\<lparr>r_world := w, h_written := insert (ni_path dst, pkt) (h_written r)\<rparr>)"
  have take: "worker_take env j r = Some ?r'" using assms(3) k wr by (simp add: worker_take_def Let_def q)
  show thesis
  proof (rule that)
    show "relay_step env r ?r'" by (rule relay_step.worker [OF assms(3,4) _ take]) (simp add: q)
    show "(ni_path dst, pkt) \<in> h_written ?r'" by (simp add: set_inst_def)
    show "r_heap ?r' j = Some ?dst" by (simp add: set_inst_def)
  qed (use assms(4) in simp_all)
qed

text \<open>By and by it writes every packet of the queue.\<close>

lemma queue_drains:
  assumes "reachable env groups t0 w0 r" and "\<forall>g \<in> set groups. sendable g"
    and "r_heap r j = Some dst" and "\<not> ni_joined dst" and "ni_sendCh dst = front @ pkt # rest"
  shows "\<exists>r'. (relay_step env)\<^sup>*\<^sup>* r r' \<and> (ni_path dst, pkt) \<in> h_written r'"
  using assms(1,3-5)
proof (induction front arbitrary: r dst)
  case Nil
  then obtain r' where "relay_step env r r'" "(ni_path dst, pkt) \<in> h_written r'"
    using worker_writes [OF Nil.prems(1) assms(2) Nil.prems(2,3)] by (metis append_Nil)
  then show ?case by (meson r_into_rtranclp)
next
  case (Cons p front)
  from Cons.prems(4) have "ni_sendCh dst = p # (front @ pkt # rest)" by simp
  from worker_writes [OF Cons.prems(1) assms(2) Cons.prems(2,3) this]
  obtain r1 dst1 where 1: "relay_step env r r1" and d: "r_heap r1 j = Some dst1" "\<not> ni_joined dst1"
    "ni_sendCh dst1 = front @ pkt # rest" and p: "ni_path dst1 = ni_path dst" by metis
  from Cons.IH [OF reachable_step [OF Cons.prems(1) 1] d]
  obtain r' where "(relay_step env)\<^sup>*\<^sup>* r1 r'" "(ni_path dst1, pkt) \<in> h_written r'" by blast
  with 1 show ?case unfolding p by (meson converse_rtranclp_into_rtranclp)
qed

text \<open>A packet that arrives while the loop is idle, and that the chain passes, is written.\<close>

lemma packet_delivered:
  assumes "reachable env groups t0 w0 r" and "\<forall>g \<in> set groups. sendable g"
    and idle: "b_pc r = BSelect" "r_broadcastCh r = []" "\<not> r_ctxDone r" "c_pc r = CSelect"
    and source: "r_snap r p = Some i" "r_heap r i = Some inst" "can_read r inst k pkt"
    and passes: "mw_Process (r_now r) (r_middleware r) pkt = (m, pkt)"
    and dest: "r_snap r q = Some j" "r_heap r j = Some dst" "q \<noteq> p" "length (ni_sendCh dst) < ChannelBuffer"
  shows "\<exists>r'. (relay_step env)\<^sup>*\<^sup>* r r' \<and> (q, pkt) \<in> h_written r'"
proof -
  have shape: "shape_inv r" by (rule reachable_shape [OF assms(1)])
  have path: "ni_path inst = p" "ni_path dst = q"
    using pointsD [OF points_snap [OF shape], of p i] pointsD [OF points_snap [OF shape], of q j] source(1,2) dest(1,2)
    by (simp_all add: Map.graph_def)
  have live: "\<not> ni_done x \<and> \<not> ni_joined x" if "r_snap r a = Some b" "r_heap r b = Some x" for a b x
    using life_invD(1) [OF reachable_life [OF assms(1)], of b] ranI [of "r_snap r" a b] that idle(4)
    by (auto simp: flags_def)
  obtain r1 where r1: "(relay_step env)\<^sup>*\<^sup>* r r1" "r_heap r1 j = Some (dst\<lparr>ni_sendCh := ni_sendCh dst @ [pkt]\<rparr>)"
    using delivery_steps [OF idle(1-3) shape source(2) _ source(3) passes dest(1,2) _ _ dest(4)]
      live [OF source(1,2)] live [OF dest(1,2)] dest(3) path(1) by metis
  from queue_drains [OF reachable_steps [OF assms(1) r1(1)] assms(2) r1(2), where front = "ni_sendCh dst" and pkt = pkt and rest = "[]"]
  obtain r' where "(relay_step env)\<^sup>*\<^sup>* r1 r'" "(q, pkt) \<in> h_written r'"
    using live [OF dest(1,2)] path(2) by auto
  with r1(1) show ?thesis by (meson rtranclp_trans)
qed

end

text \<open>The socket package of this repository, for IPv4 groups.\<close>

interpretation os_sockets: socket_package "os_env nsapi api" "\<lambda>g. To4 (addr_IP g) \<noteq> None" for nsapi api
proof
  show "keeps_group (os_env nsapi api)" by (rule keeps_group_os_env)
  show "write_keeps_group (os_env nsapi api)" by (rule write_keeps_group_os_env)
  show "env_WriteToGroup (os_env nsapi api) s d src ttl w \<noteq> None" if "To4 (addr_IP (sock_Group s)) \<noteq> None" for s d src ttl w
    using WriteToGroup_Some [of s] that by (auto simp: os_env_def sock_Group_def)
qed

end
