(* ===== verification/RelayProperties.thy ===== *)
theory RelayProperties
  imports RelayDelivery
begin

text \<open>
  The correctness properties of a running relay, read off the invariants of
  \<open>RelayInvariants\<close>, and a concrete run in which two namespaces are added and a packet is
  relayed, at which the properties are instantiated.
\<close>

section \<open>A concrete run\<close>

text \<open>
  An environment in which every call succeeds: descriptors are counted up from the state,
  which is the next free one.
\<close>

definition demo_group :: udp_addr where
  "demo_group = \<lparr>addr_IP = [224, 0, 0, 251], addr_Port = 5353, addr_Zone = ''''\<rparr>"

definition demo_sock :: "udp_addr \<Rightarrow> nat \<Rightarrow> MulticastSocket" where
  "demo_sock g fd = \<lparr>sock_conn = fd, sock_rawConn = None, sock_group = g, interfaceIndex = 1,
     interfaceIndices = [1], recentTx = None\<rparr>"

definition demo_env :: "nat relay_env" where
  "demo_env =
     \<lparr>env_Open = (\<lambda>path w. (Inr \<lparr>ns_handle = w, ns_path = path\<rparr>, Suc w)),
      env_NewSocket = (\<lambda>g h w. (Inr (demo_sock g w), Suc w)),
      env_SockClose = (\<lambda>s w. (None, w)),
      env_HandleClose = (\<lambda>h w. (None, w)),
      env_WriteToGroup = (\<lambda>s data src ttl w. Some ((length data, None), s, w))\<rparr>"

definition demo_inst :: "string \<Rightarrow> nat \<Rightarrow> nsInstance" where
  "demo_inst path fd =
     \<lparr>ni_path = path, ni_handle = \<lparr>ns_handle = fd, ns_path = path\<rparr>, ni_sockets = [demo_sock demo_group (Suc fd)],
      ni_socketsByGroup = [groupKeyFromUDPAddr (Some demo_group) \<mapsto> 0], ni_sendCh = [],
      ni_holding = Map.empty, ni_done = False, ni_joined = False\<rparr>"

lemma demo_build: "buildInstance demo_env [demo_group] p w = (Inr (demo_inst p w), Suc (Suc w))"
  by (simp add: buildInstance_def demo_env_def demo_inst_def demo_sock_def sock_Group_def)

definition demo_t0 :: gotime where
  "demo_t0 = 1"

definition demo_new :: "nat relay" where
  "demo_new = relay_New [demo_group] demo_t0 0"

text \<open>Two intents, the wait, the reconcile pass.\<close>

definition demo_intents :: "nat relay" where
  "demo_intents = coord_accept nsCmdAdd ''/b'' (coord_accept nsCmdAdd ''/a'' demo_new)"

definition demo_due :: "nat relay" where
  "demo_due = demo_intents\<lparr>r_now := demo_t0 + DebounceWindow\<rparr>"

definition demo_active :: "nat relay" where
  "demo_active = reconcile demo_env [] [''/a'', ''/b''] (coord_fire [] [''/a'', ''/b''] demo_due)"

lemma demo_due_fields:
  "c_pc demo_due = CSelect" "c_timer demo_due = Some (demo_t0 + DebounceWindow)" "r_now demo_due = demo_t0 + DebounceWindow"
  "c_pendingAdd demo_due = {''/a'', ''/b''}" "c_pendingDel demo_due = {}" "r_snap demo_due = Map.empty"
  "r_heap demo_due = Map.empty" "r_fresh demo_due = 0" "r_groups demo_due = [demo_group]" "r_world demo_due = 0"
  "b_pc demo_due = BSelect" "r_broadcastCh demo_due = []" "r_ctxDone demo_due = False"
  "h_intents demo_due = [(demo_t0, nsCmdAdd, ''/a''), (demo_t0, nsCmdAdd, ''/b'')]"
  "r_middleware demo_due = Chain [LoopGuardMW relay_guard]" "h_fanout demo_due = []" "h_processed demo_due = []"
  "h_received demo_due = {}" "h_written demo_due = {}"
  by (auto simp: demo_due_def demo_intents_def demo_new_def relay_New_def coord_accept_pending relay_guard_def)

lemma demo_reachable_due: "reachable demo_env [demo_group] demo_t0 0 demo_due"
proof -
  have 0: "reachable demo_env [demo_group] demo_t0 0 demo_new"
    unfolding demo_new_def by (rule reachable_New)
  have 1: "reachable demo_env [demo_group] demo_t0 0 (coord_accept nsCmdAdd ''/a'' demo_new)"
    by (rule reachable_step [OF 0], rule relay_step.accept) (simp add: demo_new_def relay_New_def)
  have 2: "reachable demo_env [demo_group] demo_t0 0 demo_intents"
    unfolding demo_intents_def
    by (rule reachable_step [OF 1], rule relay_step.accept) (simp add: demo_new_def relay_New_def)
  show ?thesis
    unfolding demo_due_def
    by (rule reachable_step [OF 2], rule relay_step.tick)
      (simp add: demo_intents_def demo_new_def relay_New_def DebounceWindow_def millisecond_def)
qed

lemma demo_enumerates:
  "enumerates [] (c_pendingDel demo_due)" "enumerates [''/a'', ''/b''] (c_pendingAdd demo_due)"
  by (simp_all add: enumerates_def demo_due_fields)

lemma demo_reachable_active: "reachable demo_env [demo_group] demo_t0 0 demo_active"
  unfolding demo_active_def
  by (rule reachable_steps [OF demo_reachable_due pass_steps [OF demo_due_fields(1,2) _ demo_enumerates]])
    (simp add: demo_due_fields)

lemma demo_active_eq:
  "demo_active = demo_due\<lparr>c_timer := None, c_pendingAdd := {}, c_pendingDel := {}, h_intents := [],
     r_snap := [''/a'' \<mapsto> 0, ''/b'' \<mapsto> 1], r_heap := [0 \<mapsto> demo_inst ''/a'' 0, 1 \<mapsto> demo_inst ''/b'' 2],
     r_fresh := 2, r_world := 4, c_pc := CSelect\<rparr>"
  by (simp add: demo_active_def reconcile_def reconcile_store_def coord_fire_def reconcile_add_def set_inst_def
      demo_due_fields demo_build eval_nat_numeral)

text \<open>The states of the run as values.\<close>

definition demo_source :: udp_addr where
  "demo_source = \<lparr>addr_IP = [10, 0, 0, 7], addr_Port = 5353, addr_Zone = ''''\<rparr>"

definition demo_packet :: packet where
  "demo_packet = received_packet (demo_sock demo_group 1) ''/a'' ([1, 2, 3], demo_source, 255)"

definition demo_read :: "nat relay" where
  "demo_read = receive_read 0 (demo_inst ''/a'' 0) 0 demo_packet demo_active"

definition demo_pushed :: "nat relay" where
  "demo_pushed = receive_push 0 (the (r_heap demo_read 0)) 0 demo_packet demo_read"

definition demo_taken :: "nat relay" where
  "demo_taken = bcast_take [''/a'', ''/b''] demo_pushed"

definition demo_fanned :: "nat relay" where
  "demo_fanned = (fanout_one demo_packet ''/b'' 1
     ((fanout_one demo_packet ''/a'' 0 demo_taken)\<lparr>b_pc := BFan demo_packet [(''/b'', 1)]\<rparr>))\<lparr>b_pc := BFan demo_packet []\<rparr>"

definition demo_written :: "nat relay" where
  "demo_written = the (worker_take demo_env (Suc 0) demo_fanned)"

lemma demo_packet_fields:
  "Data demo_packet = Some [1, 2, 3]" "SourcePath demo_packet = ''/a''" "Group demo_packet = Some demo_group"
  by (simp_all add: demo_packet_def received_packet_def demo_sock_def sock_Group_def)

lemma demo_active_fields:
  "c_pc demo_active = CSelect" "r_now demo_active = demo_t0 + DebounceWindow"
  "r_snap demo_active = [''/a'' \<mapsto> 0, ''/b'' \<mapsto> 1]"
  "r_heap demo_active = [0 \<mapsto> demo_inst ''/a'' 0, 1 \<mapsto> demo_inst ''/b'' 2]" "r_broadcastCh demo_active = []"
  "b_pc demo_active = BSelect" "r_ctxDone demo_active = False" "r_world demo_active = 4"
  "r_middleware demo_active = Chain [LoopGuardMW relay_guard]" "h_fanout demo_active = []"
  "h_received demo_active = {}" "h_written demo_active = {}"
  by (simp_all add: demo_active_eq demo_due_fields)

lemma demo_reachable_read: "reachable demo_env [demo_group] demo_t0 0 demo_read"
proof -
  let ?ev = "\<lparr>ev_outcome = ReadPkt [1, 2, 3] (Some 255) (Some demo_source),
      ev_recent = None, ev_now = demo_t0 + DebounceWindow\<rparr>"
  have "relay_step demo_env demo_active
     (receive_read 0 (demo_inst ''/a'' 0) 0
        (received_packet (ni_sockets (demo_inst ''/a'' 0) ! 0) (ni_path (demo_inst ''/a'' 0))
          ([1, 2, 3], demo_source, 255)) demo_active)"
    by (rule relay_step.read [where ev = ?ev])
      (simp_all add: demo_active_fields demo_inst_def demo_sock_def isSelfEcho_def)
  then have "relay_step demo_env demo_active demo_read"
    by (simp add: demo_read_def demo_packet_def demo_inst_def)
  then show ?thesis by (rule reachable_step [OF demo_reachable_active])
qed

lemma demo_read_heap:
  "r_heap demo_read 0 = Some ((demo_inst ''/a'' 0)\<lparr>ni_holding := [0 \<mapsto> demo_packet]\<rparr>)"
  by (simp add: demo_read_def step_ops demo_inst_def)

lemma demo_reachable_pushed: "reachable demo_env [demo_group] demo_t0 0 demo_pushed"
  unfolding demo_pushed_def demo_read_heap option.sel
  by (rule reachable_step [OF demo_reachable_read], rule relay_step.push [OF demo_read_heap])
    (simp_all add: demo_inst_def, simp add: demo_read_def step_ops demo_active_fields ChannelBuffer_def)

lemma demo_pushed_fields:
  "r_broadcastCh demo_pushed = [demo_packet]" "b_pc demo_pushed = BSelect"
  "r_snap demo_pushed = [''/a'' \<mapsto> 0, ''/b'' \<mapsto> 1]" "r_now demo_pushed = demo_t0 + DebounceWindow"
  "r_heap demo_pushed = [0 \<mapsto> demo_inst ''/a'' 0, 1 \<mapsto> demo_inst ''/b'' 2]" "r_ctxDone demo_pushed = False"
  "r_middleware demo_pushed = Chain [LoopGuardMW relay_guard]" "h_written demo_pushed = {}" "r_world demo_pushed = 4"
  "h_received demo_pushed = {demo_packet}" "h_fanout demo_pushed = []"
  unfolding demo_pushed_def demo_read_heap option.sel
  by (simp_all add: demo_read_def step_ops demo_active_fields demo_inst_def fun_upd_twist)

lemma demo_process:
  "\<exists>m. mw_Process t (Chain [LoopGuardMW relay_guard]) demo_packet = (m, demo_packet)"
proof -
  have "\<not> suppressed t relay_guard demo_packet" by (simp add: suppressed_def relay_guard_def NewLoopGuard_def)
  then show ?thesis by (simp add: chain_single_guard LoopGuard_Process_cases)
qed

lemma demo_taken_fields:
  "b_pc demo_taken = BFan demo_packet [(''/a'', 0), (''/b'', 1)]" "h_fanout demo_taken = [(demo_t0 + DebounceWindow, demo_packet)]"
proof -
  obtain m where m: "mw_Process (r_now demo_pushed) (r_middleware demo_pushed) demo_packet = (m, demo_packet)"
    using demo_process by (auto simp: demo_pushed_fields)
  note eq = bcast_take_eq [OF demo_pushed_fields(1) m, of "[''/a'', ''/b'']", folded demo_taken_def]
  show "b_pc demo_taken = BFan demo_packet [(''/a'', 0), (''/b'', 1)]"
    "h_fanout demo_taken = [(demo_t0 + DebounceWindow, demo_packet)]"
    by (simp_all add: eq Let_def demo_packet_fields demo_pushed_fields)
qed

lemma demo_reachable_taken: "reachable demo_env [demo_group] demo_t0 0 demo_taken"
  unfolding demo_taken_def
  by (rule reachable_step [OF demo_reachable_pushed], rule relay_step.take)
    (auto simp add: demo_pushed_fields enumerates_def)

lemma demo_taken_rest:
  "r_heap demo_taken = [0 \<mapsto> demo_inst ''/a'' 0, 1 \<mapsto> demo_inst ''/b'' 2]" "r_ctxDone demo_taken = False"
  "h_received demo_taken = {demo_packet}" "h_written demo_taken = {}" "r_world demo_taken = 4"
  by (simp_all add: demo_taken_def demo_pushed_fields)

lemma demo_reachable_fanned: "reachable demo_env [demo_group] demo_t0 0 demo_fanned"
proof -
  let ?s = "(fanout_one demo_packet ''/a'' 0 demo_taken)\<lparr>b_pc := BFan demo_packet [(''/b'', 1)]\<rparr>"
  have "reachable demo_env [demo_group] demo_t0 0 ?s"
    by (rule reachable_step [OF demo_reachable_taken], rule relay_step.fan) (simp add: demo_taken_fields)
  then show ?thesis unfolding demo_fanned_def by (rule reachable_step, intro relay_step.fan) simp
qed

lemma demo_fanned_heap:
  "r_heap demo_fanned (Suc 0) = Some ((demo_inst ''/b'' 2)\<lparr>ni_sendCh := [demo_packet]\<rparr>)"
  by (simp add: demo_fanned_def fanout_one_def demo_taken_rest demo_packet_fields inst_ctx_done_def demo_inst_def
      ChannelBuffer_def step_ops)

lemma demo_fanned_rest: "h_written demo_fanned = {}" "r_world demo_fanned = 4"
  by (simp_all add: demo_fanned_def demo_taken_rest)

lemma demo_written_eq:
  "worker_take demo_env (Suc 0) demo_fanned = Some demo_written \<and> h_written demo_written = {(''/b'', demo_packet)}"
  by (simp add: demo_written_def worker_take_def demo_fanned_heap Let_def demo_packet_fields demo_inst_def
      demo_env_def set_inst_def demo_fanned_rest)

lemma demo_reachable_written: "reachable demo_env [demo_group] demo_t0 0 demo_written"
  by (rule reachable_step [OF demo_reachable_fanned], rule relay_step.worker [OF demo_fanned_heap])
    (simp_all add: demo_inst_def demo_written_eq)

text \<open>The same payload again, one window later.\<close>

definition demo_later :: "nat relay" where
  "demo_later = (demo_written\<lparr>b_pc := BSelect\<rparr>)\<lparr>r_now := demo_t0 + DebounceWindow + DefaultLoopGuardWindow\<rparr>"

definition demo_read2 :: "nat relay" where
  "demo_read2 = receive_read 0 (demo_inst ''/a'' 0) 0 demo_packet demo_later"

definition demo_pushed2 :: "nat relay" where
  "demo_pushed2 = receive_push 0 (the (r_heap demo_read2 0)) 0 demo_packet demo_read2"

definition demo_taken2 :: "nat relay" where
  "demo_taken2 = bcast_take [''/a'', ''/b''] demo_pushed2"

lemma demo_written_rest:
  "b_pc demo_written = BFan demo_packet []" "r_heap demo_written 0 = Some (demo_inst ''/a'' 0)"
  "r_now demo_written = demo_t0 + DebounceWindow" "r_broadcastCh demo_written = []"
  "r_snap demo_written = [''/a'' \<mapsto> 0, ''/b'' \<mapsto> 1]" "h_fanout demo_written = [(demo_t0 + DebounceWindow, demo_packet)]"
  "r_middleware demo_written = r_middleware demo_taken"
proof -
  note f = worker_take_frame [OF conjunct1 [OF demo_written_eq] demo_fanned_heap]
  have ne: "ni_sendCh ((demo_inst ''/b'' 2)\<lparr>ni_sendCh := [demo_packet]\<rparr>) \<noteq> []" by simp
  have ch: "r_broadcastCh demo_taken = []"
    by (simp add: demo_taken_def bcast_take_def demo_pushed_fields Let_def split: prod.split)
  show "b_pc demo_written = BFan demo_packet []" "r_now demo_written = demo_t0 + DebounceWindow"
    "r_broadcastCh demo_written = []" "r_snap demo_written = [''/a'' \<mapsto> 0, ''/b'' \<mapsto> 1]"
    "h_fanout demo_written = [(demo_t0 + DebounceWindow, demo_packet)]" "r_middleware demo_written = r_middleware demo_taken"
    using ch by (simp_all add: f [OF ne] demo_fanned_def demo_taken_fields, simp_all add: demo_taken_def demo_pushed_fields)
  obtain ss where "r_heap demo_written = (r_heap demo_fanned)(Suc 0 \<mapsto>
      (demo_inst ''/b'' 2)\<lparr>ni_sendCh := [], ni_sockets := ss\<rparr>)"
    using f(1) [OF ne] by auto
  moreover have "r_heap demo_fanned 0 = Some (demo_inst ''/a'' 0)"
    by (simp add: demo_fanned_def fanout_one_def demo_taken_rest demo_packet_fields inst_ctx_done_def demo_inst_def
        ChannelBuffer_def step_ops)
  ultimately show "r_heap demo_written 0 = Some (demo_inst ''/a'' 0)" by simp
qed

lemma demo_reachable_later: "reachable demo_env [demo_group] demo_t0 0 demo_later"
proof -
  have "reachable demo_env [demo_group] demo_t0 0 (demo_written\<lparr>b_pc := BSelect\<rparr>)"
    by (rule reachable_step [OF demo_reachable_written], rule relay_step.fan_end [OF demo_written_rest(1)])
  then show ?thesis unfolding demo_later_def
    by (rule reachable_step, intro relay_step.tick)
      (simp add: demo_written_rest DefaultLoopGuardWindow_def millisecond_def)
qed

lemma demo_reachable_pushed2: "reachable demo_env [demo_group] demo_t0 0 demo_pushed2"
proof -
  let ?ev = "\<lparr>ev_outcome = ReadPkt [1, 2, 3] (Some 255) (Some demo_source), ev_recent = None, ev_now = r_now demo_later\<rparr>"
  have h: "r_heap demo_later 0 = Some (demo_inst ''/a'' 0)" by (simp add: demo_later_def demo_written_rest)
  have "relay_step demo_env demo_later
     (receive_read 0 (demo_inst ''/a'' 0) 0
        (received_packet (ni_sockets (demo_inst ''/a'' 0) ! 0) (ni_path (demo_inst ''/a'' 0))
          ([1, 2, 3], demo_source, 255)) demo_later)"
    by (rule relay_step.read [where ev = ?ev]) (simp_all add: h demo_inst_def demo_sock_def isSelfEcho_def)
  then have "relay_step demo_env demo_later demo_read2"
    by (simp add: demo_read2_def demo_packet_def demo_inst_def)
  with demo_reachable_later have r: "reachable demo_env [demo_group] demo_t0 0 demo_read2" by (rule reachable_step)
  have h2: "r_heap demo_read2 0 = Some ((demo_inst ''/a'' 0)\<lparr>ni_holding := [0 \<mapsto> demo_packet]\<rparr>)"
    by (simp add: demo_read2_def step_ops demo_inst_def)
  show ?thesis unfolding demo_pushed2_def h2 option.sel
    by (rule reachable_step [OF r], rule relay_step.push [OF h2])
      (simp_all add: demo_inst_def, simp add: demo_read2_def demo_later_def step_ops demo_written_rest ChannelBuffer_def)
qed

lemma demo_taken2_fanout:
  "h_fanout demo_taken2 = [(demo_t0 + DebounceWindow, demo_packet),
     (demo_t0 + DebounceWindow + DefaultLoopGuardWindow, demo_packet)]"
proof -
  let ?t = "demo_t0 + DebounceWindow"
  obtain g pkt' where g: "LoopGuard_Process ?t relay_guard demo_packet = (g, pkt')" by fastforce
  have first: "\<not> suppressed ?t relay_guard demo_packet" by (simp add: suppressed_def relay_guard_def NewLoopGuard_def)
  have g': "seen g (loopKeyForPacket demo_packet) = Some (?t + DefaultLoopGuardWindow)"
    using g first by (auto simp: LoopGuard_Process_cases window_relay_guard)
  have m: "r_middleware demo_pushed2 = Chain [LoopGuardMW g]"
    using g first unfolding demo_pushed2_def demo_read2_def demo_later_def
    by (simp add: step_ops demo_written_rest demo_taken_def bcast_take_def demo_pushed_fields chain_single_guard
        demo_packet_fields LoopGuard_Process_cases Let_def)
  have now: "r_now demo_pushed2 = ?t + DefaultLoopGuardWindow" and ch: "r_broadcastCh demo_pushed2 = [demo_packet]"
    and out: "h_fanout demo_pushed2 = [(?t, demo_packet)]"
    by (simp_all add: demo_pushed2_def demo_read2_def demo_later_def step_ops demo_written_rest)
  have "\<not> suppressed (?t + DefaultLoopGuardWindow) g demo_packet" using g' by (simp add: suppressed_def)
  then show ?thesis
    by (simp add: demo_taken2_def bcast_take_def ch m now out chain_single_guard LoopGuard_Process_cases Let_def
        demo_packet_fields)
qed

lemma demo_reachable_taken2: "reachable demo_env [demo_group] demo_t0 0 demo_taken2"
  unfolding demo_taken2_def
  by (rule reachable_step [OF demo_reachable_pushed2], rule relay_step.take)
    (auto simp: demo_pushed2_def demo_read2_def demo_later_def step_ops demo_written_rest enumerates_def)

section \<open>Packets\<close>



text \<open>
  C3. Two packets with the same payload hash, group address, port and zone that reach the
  fan-out loop are at least the guard's window of 250 ms apart: a packet that comes back
  through another interface or another relay does not circulate.
\<close>

theorem fanout_spacing:
  assumes "reachable env groups t0 w0 r" and "i < j" and "j < length (h_fanout r)"
    and "loopKeyForPacket (snd (h_fanout r ! i)) = loopKeyForPacket (snd (h_fanout r ! j))"
  shows "fst (h_fanout r ! i) + DefaultLoopGuardWindow \<le> fst (h_fanout r ! j)"
proof -
  have g: "guarded r" by (rule reachable_guarded [OF assms(1)])
  then have out: "h_fanout r = snd (guard_run relay_guard (h_processed r))" and "sorted (map fst (h_processed r))"
    by (simp_all add: guarded_def)
  then show ?thesis
    using guard_run_spaced [of "h_processed r" i j relay_guard] assms(2-4) by (simp add: window_relay_guard)
qed

theorem fanout_spacing_witness:
  "fst (h_fanout demo_taken2 ! 0) + DefaultLoopGuardWindow \<le> fst (h_fanout demo_taken2 ! 1)"
  by (rule fanout_spacing [OF demo_reachable_taken2]) (simp_all add: demo_taken2_fanout)

text \<open>
  C21. The broadcast channel and every send queue stay within 1000 packets, and no queue
  ever holds a packet of its own namespace.
\<close>

theorem queues_bounded:
  assumes "reachable env groups t0 w0 r" and "r_heap r i = Some inst"
  shows "length (r_broadcastCh r) \<le> 1000 \<and> length (ni_sendCh inst) \<le> 1000
    \<and> (\<forall>pkt \<in> set (ni_sendCh inst). SourcePath pkt \<noteq> ni_path inst \<and> pkt \<in> h_received r)"
proof -
  have inv: "packet_inv r" by (rule reachable_packets [OF assms(1)])
  have "queue_ok (fanned r) (h_received r) inst" by (rule packet_invD(1) [OF inv assms(2)])
  then show ?thesis using packet_invD(2,4) [OF inv] by (auto simp: queue_ok_def ChannelBuffer_def)
qed

theorem queues_bounded_witness:
  "length (r_broadcastCh demo_fanned) \<le> 1000 \<and> length [demo_packet] \<le> 1000
    \<and> SourcePath demo_packet \<noteq> ''/b'' \<and> demo_packet \<in> h_received demo_fanned"
  using queues_bounded [OF demo_reachable_fanned demo_fanned_heap] by (simp add: demo_inst_def)

text \<open>
  C14. A whole fan-out loop hands the packet to exactly the live destinations with room,
  other than the source: each gets it once, at the end of its queue, and a full queue or a
  dead instance affects no other one.
\<close>

theorem fanout_exact:
  assumes "distinct (map snd dests)" and "(path, j) \<in> set dests" and "r_heap r j = Some inst"
  shows "r_heap (fanout pkt dests r) j = Some
    (if path \<noteq> SourcePath pkt \<and> \<not> inst_ctx_done r inst \<and> length (ni_sendCh inst) < ChannelBuffer
     then inst\<lparr>ni_sendCh := ni_sendCh inst @ [pkt]\<rparr> else inst)"
  by (rule fanout_queue [OF assms])

theorem fanout_exact_witness:
  "r_heap (fanout demo_packet [(''/a'', 0), (''/b'', 1)] demo_taken) 1
     = Some ((demo_inst ''/b'' 2)\<lparr>ni_sendCh := [demo_packet]\<rparr>)"
proof -
  have "r_heap demo_taken 1 = Some (demo_inst ''/b'' 2)" by (simp add: demo_taken_rest)
  from fanout_exact [of "[(''/a'', 0), (''/b'', 1)]" "''/b''" 1, OF _ _ this, of demo_packet] show ?thesis
    by (simp add: demo_packet_fields inst_ctx_done_def demo_taken_rest demo_inst_def ChannelBuffer_def)
qed

text \<open>
  C16. A packet waiting in a send queue has a socket of its group in that instance: it leaves
  on the group it arrived on and is not lost for want of a socket.
\<close>

theorem queued_packet_has_socket:
  assumes "keeps_group env" and "write_keeps_group env" and "reachable env groups t0 w0 r"
    and "r_heap r i = Some inst" and "pkt \<in> set (ni_sendCh inst)"
  shows "\<exists>k < length (ni_sockets inst). ni_socketsByGroup inst (groupKeyFromUDPAddr (Group pkt)) = Some k
    \<and> groupKeyFromUDPAddr (Some (sock_Group (ni_sockets inst ! k))) = groupKeyFromUDPAddr (Group pkt)"
  using queued_socket [OF assms] by blast

lemma demo_keeps: "keeps_group demo_env" "write_keeps_group demo_env"
  by (auto simp: keeps_group_def write_keeps_group_def demo_env_def demo_sock_def sock_Group_def)

theorem queued_packet_has_socket_witness:
  "\<exists>k < 1. ni_socketsByGroup (demo_inst ''/b'' 2) (groupKeyFromUDPAddr (Some demo_group)) = Some k
     \<and> groupKeyFromUDPAddr (Some (sock_Group (ni_sockets (demo_inst ''/b'' 2) ! k))) = groupKeyFromUDPAddr (Some demo_group)"
  using queued_packet_has_socket [OF demo_keeps demo_reachable_fanned demo_fanned_heap, of demo_packet]
  by (simp add: demo_packet_fields) (simp add: demo_inst_def)

section \<open>Namespaces\<close>

text \<open>
  C15. Between two reconcile passes the active namespaces are exactly the instances whose
  context is live, each under its own path, and every other instance that was ever built
  has been torn down completely.
\<close>

theorem active_iff_live:
  assumes "reachable env groups t0 w0 r" and "c_pc r = CSelect"
  shows "(r_snap r p = Some i \<longleftrightarrow> (\<exists>inst. r_heap r i = Some inst \<and> \<not> ni_done inst \<and> ni_path inst = p))
    \<and> (\<forall>inst. r_heap r i = Some inst \<and> ni_done inst \<longrightarrow> ni_joined inst)"
proof (intro conjI iffI allI impI)
  note life = life_invD(1-3) [OF reachable_life [OF assms(1)], of i, unfolded assms(2) alive.simps dying.simps]
  note pts = points_snap [OF reachable_shape [OF assms(1)]]
  { assume p: "r_snap r p = Some i"
    then have "(p, i) \<in> Map.graph (r_snap r)" by (simp add: Map.graph_def)
    from pointsD [OF pts this] obtain inst where "r_heap r i = Some inst" "ni_path inst = p" by blast
    moreover have "i \<in> ran (r_snap r)" using p by (rule ranI)
    ultimately show "\<exists>inst. r_heap r i = Some inst \<and> \<not> ni_done inst \<and> ni_path inst = p"
      using life(1) by (auto simp: flags_def) }
  { assume "\<exists>inst. r_heap r i = Some inst \<and> \<not> ni_done inst \<and> ni_path inst = p"
    then obtain inst where inst: "r_heap r i = Some inst" "\<not> ni_done inst" "ni_path inst = p" by blast
    then have "i \<in> ran (r_snap r)" using life(1,3) by (auto simp: flags_def)
    then obtain q where q: "r_snap r q = Some i" by (auto simp: ran_def)
    then have "(q, i) \<in> Map.graph (r_snap r)" by (simp add: Map.graph_def)
    from pointsD [OF pts this] inst q show "r_snap r p = Some i" by auto }
  { fix inst assume "r_heap r i = Some inst \<and> ni_done inst"
    then show "ni_joined inst" using life(2) by (auto simp: flags_def) }
qed

theorem active_iff_live_witness:
  "r_snap demo_active ''/b'' = Some 1 \<longleftrightarrow>
     (\<exists>inst. r_heap demo_active 1 = Some inst \<and> \<not> ni_done inst \<and> ni_path inst = ''/b'')"
  using active_iff_live [OF demo_reachable_active demo_active_fields(1), of "''/b''" 1] by (rule conjunct1)

text \<open>
  C17. When \<^verbatim>\<open>Run\<close> has returned, every instance that was ever built has been cancelled and
  its goroutines have returned.
\<close>

theorem shutdown_complete:
  assumes "reachable env groups t0 w0 r" and "run_returned r" and "r_heap r i = Some inst"
  shows "ni_done inst \<and> ni_joined inst"
proof -
  have "c_pc r = CStopping []" using assms(2) by (simp add: run_returned_def)
  with life_invD(1-3) [OF reachable_life [OF assms(1)], of i] assms(3) show ?thesis
    by (auto simp: flags_def)
qed

theorem shutdown_complete_witness:
  "\<exists>r inst. reachable demo_env [demo_group] demo_t0 0 r \<and> run_returned r \<and> r_heap r 0 = Some inst
     \<and> ni_done inst \<and> ni_joined inst"
proof -
  obtain r where r: "(relay_step demo_env)\<^sup>*\<^sup>* demo_active r" "run_returned r"
    using shutdown_steps [OF demo_reachable_active] by blast
  have reach: "reachable demo_env [demo_group] demo_t0 0 r" by (rule reachable_steps [OF demo_reachable_active r(1)])
  have "r_heap r 0 \<noteq> None"
    using steps_paths [OF r(1) reachable_shape [OF demo_reachable_active]] by (simp add: demo_active_fields)
  then obtain inst where "r_heap r 0 = Some inst" by blast
  with shutdown_complete [OF reach r(2) this] reach r(2) show ?thesis by blast
qed



text \<open>
  C20. The debounce: while the coordinator waits, its timer is armed exactly when an intent
  is pending, for 300 ms after the last one; a reconcile pass runs only when 300 ms have
  gone by since the last intent.
\<close>

theorem debounce:
  assumes "reachable env groups t0 w0 r"
  shows "(c_pc r = CSelect \<longrightarrow> c_timer r =
      (if h_intents r = [] then None else Some (fst (last (h_intents r)) + 300 * millisecond)))
    \<and> (in_pass (c_pc r) \<longrightarrow> h_intents r \<noteq> [] \<and> fst (last (h_intents r)) + 300 * millisecond \<le> r_now r)
    \<and> (c_pendingAdd r \<union> c_pendingDel r \<noteq> {} \<longrightarrow> h_intents r \<noteq> [])"
proof -
  have inv: "intents_inv r" using reachable_intents [OF assms] ..
  have "last_intent [] p = None" for p by (simp add: last_intent_def)
  then have "h_intents r = [] \<Longrightarrow> c_pendingAdd r = {} \<and> c_pendingDel r = {}"
    using intents_invD(1,2) [OF inv] by auto
  then show ?thesis using intents_invD(3,5) [OF inv] by (auto simp: DebounceWindow_def)
qed

theorem debounce_witness:
  "c_timer demo_due = Some (demo_t0 + 300 * millisecond)"
  using debounce [OF demo_reachable_due] by (simp add: demo_due_fields)




text \<open>
  A reconcile pass keeps the instance of every active namespace that no pending removal
  names: its sockets and queue are not rebuilt.
\<close>

theorem reconcile_keeps:
  assumes "r_snap r p = Some i" and "p \<notin> set ds"
  shows "r_snap (reconcile env ds as r) p = Some i"
  by (rule reconcile_paths(1) [OF assms(2,1)])

end
