(* ===== verification/ControlProperties.thy ===== *)
theory ControlProperties
  imports ControlServer RelayProperties
begin

text \<open>
  The properties of \<^verbatim>\<open>internal/control\<close> with the relay behind it: the lemmas of the locale
  \<open>namespace_controller\<close> at the relay's interpretation, and those of the server's start. The
  witnesses run requests against the relay of \<open>RelayProperties\<close>.
\<close>

section \<open>Requests to try\<close>

text \<open>A body is the path of its JSON object, or consumed.\<close>

definition demo_json :: "string option json_api" where
  "demo_json =
     \<lparr>MaxBytesReader = (\<lambda>n b. b),
      Decode_payload = (\<lambda>b. case b of Some p \<Rightarrow> (Inr p, None) | None \<Rightarrow> (Inl (Sentinel EOF), None)),
      Decode_empty = (\<lambda>b. case b of Some p \<Rightarrow> (None, None) | None \<Rightarrow> (Some (Sentinel EOF), None))\<rparr>"

definition demo_id :: string where
  "demo_id = replicate 64 CHR ''a''"

definition demo_request :: "string \<Rightarrow> string \<Rightarrow> string option request" where
  "demo_request ident path = \<lparr>rq_ContentType = ''application/json'', rq_Body = Some path, rq_id = ident\<rparr>"

lemma demo_pattern: "namespacePathPattern ''/proc/12/ns/net''" "namespacePathPattern ''/proc/34/ns/net''"
  "containerIDPattern demo_id" "containerIDPattern (CHR ''b'' # tl demo_id)"
  unfolding demo_id_def by code_simp+

lemma demo_Contains: "Contains ''application/json'' ''application/json''"
  by code_simp

lemma demo_request_id [simp]: "rq_id (demo_request i p) = i"
  by (simp add: demo_request_def)

lemma demo_request_path:
  assumes "namespacePathPattern p"
  shows "request_path demo_json (demo_request ident p) = Inr p"
proof -
  note canon = pattern_canonical [OF assms]
  have "canonicalizeNamespacePath p = Inr p" using assms by (simp add: canonicalizeNamespacePath_Inr_iff canon)
  moreover have "p \<noteq> ''''" using canon(3) by auto
  ultimately show ?thesis
    by (simp add: request_path_def extractNamespacePath_def demo_request_def demo_json_def demo_Contains canon(1))
qed

definition demo_state :: "nat relay control_state" where
  "demo_state = \<lparr>cs_ctl = demo_active, containerNamespaces = Map.empty\<rparr>"

lemma demo_recorded: "recorded_intents demo_active = []"
  by (simp add: recorded_intents_def demo_active_eq)

section \<open>Namespace paths\<close>

text \<open>
  C30. The control API accepts a namespace path exactly when its cleaned form is
  \<open>/proc/<digits>/ns/net\<close>, and the form it hands on is a fixed point.
\<close>

theorem control_path:
  "(canonicalizeNamespacePath path = Inr c \<longleftrightarrow>
      IsAbs (TrimSpace path) \<and> c = Clean (TrimSpace path)
      \<and> (\<exists>ds. ds \<noteq> [] \<and> (\<forall>d \<in> set ds. is_digit d) \<and> c = ''/proc/'' @ ds @ ''/ns/net''))
   \<and> (canonicalizeNamespacePath path = Inr c \<longrightarrow> canonicalizeNamespacePath c = Inr c)"
  unfolding canonicalizeNamespacePath_Inr_iff namespacePathPattern_iff [symmetric]
  by (auto simp: pattern_canonical)

theorem control_path_witness: "canonicalizeNamespacePath ''/proc/12/ns/net'' = Inr ''/proc/12/ns/net''"
proof -
  have "canonicalizeNamespacePath '' /proc//12/ns/./net '' = Inr ''/proc/12/ns/net''" by code_simp
  with control_path [of "'' /proc//12/ns/./net ''" "''/proc/12/ns/net''"] show ?thesis by blast
qed

text \<open>
  A relative path is told to be missing, instead of relative, when it contains the word the
  error is recognised by.
\<close>

theorem relative_path_misreported:
  "canonicalizeNamespacePath ''run/required'' = Inl errPathRequired
   \<and> canonicalizeNamespacePath ''run/needed'' = Inl errPathMustBeAbsolute"
  by code_simp

section \<open>Requests\<close>

text \<open>
  C26. An add or remove request that is accepted has recorded exactly its intent; one that is
  refused has changed nothing; there are no other answers than these and an internal error.
\<close>

theorem namespace_requests:
  assumes "(op = nsCmdAdd \<and> handle_add json (relay_controller visit) d req r = (resp, r'))
    \<or> (op = nsCmdRemove \<and> handle_remove json (relay_controller visit) d req r = (resp, r'))"
  shows "(rs_status resp = 202 \<longrightarrow>
        (\<exists>p. request_path json req = Inr p \<and> recorded_intents r' = recorded_intents r @ [(op, p)]))
    \<and> (rs_status resp \<in> {400, 413} \<longrightarrow> r' = r) \<and> rs_status resp \<in> {202, 400, 413, 500}"
  using assms relay_ctl.handle_add_recorded relay_ctl.handle_remove_recorded by metis

theorem namespace_requests_witness:
  "\<exists>resp r'. handle_add demo_json (relay_controller sorted_list_of_set) Delivered (demo_request '''' ''/proc/12/ns/net'') demo_active
      = (resp, r') \<and> rs_status resp = 202 \<and> recorded_intents r' = [(nsCmdAdd, ''/proc/12/ns/net'')]"
proof -
  let ?req = "demo_request '''' ''/proc/12/ns/net''"
  have p: "request_path demo_json ?req = Inr ''/proc/12/ns/net''" by (rule demo_request_path [OF demo_pattern(1)])
  obtain resp r' where run: "handle_add demo_json (relay_controller sorted_list_of_set) Delivered ?req demo_active = (resp, r')"
    by fastforce
  with p have "rs_status resp = 202"
    by (auto simp: handle_add_def relay_controller_def AddNamespace_def submit_def)
  moreover note demo_recorded
  ultimately show ?thesis using namespace_requests [of nsCmdAdd demo_json sorted_list_of_set Delivered ?req demo_active resp r'] run p by auto
qed

text \<open>
  No request applies an intent: the active namespaces a request leaves are those it found.
\<close>

lemma requests_are_intents:
  assumes "serve_route json (relay_controller visit) rt d1 d2 req st = (resp, st')"
  shows "ActiveNamespaces visit (cs_ctl st') = ActiveNamespaces visit (cs_ctl st)"
  using relay_ctl.serve_route_active [OF assms] by (simp add: relay_controller_def)

section \<open>Containers\<close>

text \<open>
  C27. An accepted upsert maps the container to the path and records the removal of the path it
  replaces before the addition; when it is not accepted the map is unchanged, and on a bad
  request everything is.
\<close>

theorem container_upsert:
  assumes "handle_put json (relay_controller visit) d1 d2 req st = (resp, st')"
  shows "(rs_status resp = 202 \<longrightarrow> (\<exists>p. request_path json req = Inr p
      \<and> containerNamespaces st' = (containerNamespaces st)(rq_id req \<mapsto> p)
      \<and> recorded_intents (cs_ctl st') = recorded_intents (cs_ctl st)
          @ (case containerNamespaces st (rq_id req) of
               Some q \<Rightarrow> if q \<noteq> p then [(nsCmdRemove, q)] else [] | None \<Rightarrow> [])
          @ [(nsCmdAdd, p)]))
    \<and> (rs_status resp \<noteq> 202 \<longrightarrow> containerNamespaces st' = containerNamespaces st)
    \<and> (rs_status resp \<in> {400, 413} \<longrightarrow> st' = st)"
  using relay_ctl.handle_put_accepted [OF assms] relay_ctl.handle_put_refused [OF assms] by auto

definition demo_put :: "string \<Rightarrow> string \<Rightarrow> nat relay control_state \<Rightarrow> response \<times> nat relay control_state" where
  "demo_put ident path st =
     handle_put demo_json (relay_controller sorted_list_of_set) Delivered Delivered (demo_request ident path) st"

lemma demo_put_ok:
  assumes "namespacePathPattern p" and "containerIDPattern i"
  shows "rs_status (fst (demo_put i p st)) = 202"
  using assms demo_request_path [OF assms(1), of i]
  by (auto simp: demo_put_def handle_put_def Let_def remove_replaced_def relay_controller_def AddNamespace_def
      RemoveNamespace_def submit_def demo_request_def split: option.split)

theorem container_upsert_witness:
  "containerNamespaces (snd (demo_put demo_id ''/proc/12/ns/net'' demo_state)) demo_id = Some ''/proc/12/ns/net''"
proof -
  let ?r = "demo_put demo_id ''/proc/12/ns/net'' demo_state"
  have "handle_put demo_json (relay_controller sorted_list_of_set) Delivered Delivered
      (demo_request demo_id ''/proc/12/ns/net'') demo_state = (fst ?r, snd ?r)" by (simp add: demo_put_def)
  from container_upsert [OF this] demo_put_ok [OF demo_pattern(1,3), of demo_state] show ?thesis
    by (auto simp: demo_request_path [OF demo_pattern(1)])
qed

text \<open>
  C29. Removing a container forgets it and records the removal of its path once: the request
  repeated is accepted as well and records nothing.
\<close>

theorem container_removal_idempotent:
  assumes "handle_delete (relay_controller visit) d req st = (resp, st1)" and "rs_status resp = 202"
    and "handle_delete (relay_controller visit) d' req st1 = (resp', st2)"
  shows "containerNamespaces st1 = (containerNamespaces st)(rq_id req := None)
    \<and> recorded_intents (cs_ctl st1) = recorded_intents (cs_ctl st)
        @ (case containerNamespaces st (rq_id req) of Some p \<Rightarrow> [(nsCmdRemove, p)] | None \<Rightarrow> [])
    \<and> rs_status resp' = 202 \<and> st2 = st1"
proof -
  note del = relay_ctl.handle_delete_accepted [OF assms(1,2)]
  have "containerIDPattern (rq_id req)" using assms(1,2) by (auto simp: handle_delete_def Let_def split: if_splits)
  moreover have "containerNamespaces st1 (rq_id req) = None" using del by simp
  ultimately have "rs_status resp' = 202 \<and> st2 = st1" using assms(3) by (auto simp: handle_delete_def Let_def)
  with del show ?thesis by blast
qed

definition demo_mapped :: "nat relay control_state" where
  "demo_mapped = snd (demo_put demo_id ''/proc/12/ns/net'' demo_state)"

lemma demo_mapped_eq:
  "demo_mapped = \<lparr>cs_ctl = coord_accept nsCmdAdd ''/proc/12/ns/net'' demo_active,
     containerNamespaces = [demo_id \<mapsto> ''/proc/12/ns/net'']\<rparr>"
  by (simp add: demo_mapped_def demo_put_def handle_put_def Let_def demo_pattern demo_request_path
      remove_replaced_def relay_controller_def AddNamespace_def submit_def demo_state_def)

definition demo_delete :: "string \<Rightarrow> nat relay control_state \<Rightarrow> response \<times> nat relay control_state" where
  "demo_delete ident st = handle_delete (relay_controller sorted_list_of_set) Delivered (demo_request ident '''') st"

lemma demo_delete_eq:
  "handle_delete (relay_controller sorted_list_of_set) Delivered (demo_request ident '''') st
   = (fst (demo_delete ident st), snd (demo_delete ident st))"
  by (simp add: demo_delete_def)

lemma demo_delete_ok: "containerIDPattern i \<Longrightarrow> rs_status (fst (demo_delete i st)) = 202"
  by (auto simp: demo_delete_def handle_delete_def Let_def relay_controller_def RemoveNamespace_def submit_def
      split: option.split)

theorem container_removal_idempotent_witness:
  "snd (demo_delete demo_id (snd (demo_delete demo_id demo_mapped))) = snd (demo_delete demo_id demo_mapped)
   \<and> recorded_intents (cs_ctl (snd (demo_delete demo_id demo_mapped)))
      = [(nsCmdAdd, ''/proc/12/ns/net''), (nsCmdRemove, ''/proc/12/ns/net'')]"
proof -
  from demo_recorded container_removal_idempotent [OF demo_delete_eq demo_delete_ok [OF demo_pattern(3)] demo_delete_eq, of demo_mapped]
  show ?thesis by (simp add: demo_mapped_eq coord_accept_recorded)
qed

definition serve_all ::
  "'b json_api \<Rightarrow> 's controller \<Rightarrow> (route \<times> delivery \<times> delivery \<times> 'b request) list \<Rightarrow> 's control_state \<Rightarrow> 's control_state" where
  "serve_all json ctl reqs st = foldl (\<lambda>st (rt, d1, d2, req). snd (serve_route json ctl rt d1 d2 req st)) st reqs"

lemma serve_route_valid:
  "containers_ok (containerNamespaces st) \<Longrightarrow>
   containers_ok (containerNamespaces (snd (serve_route json (relay_controller visit) rt d1 d2 req st)))"
  by (rule relay_ctl.serve_route_containers [OF surjective_pairing])

text \<open>
  C28. After any sequence of requests the container map holds valid container IDs and
  canonical namespace paths only.
\<close>

theorem container_map_valid:
  "containers_ok (containerNamespaces
     (serve_all json (relay_controller visit) reqs \<lparr>cs_ctl = r, containerNamespaces = Map.empty\<rparr>))"
  unfolding serve_all_def
  by (rule foldl_invariant [where P = "\<lambda>st. containers_ok (containerNamespaces st)"])
    (auto simp: serve_route_valid split: prod.split, simp add: containers_ok_def)

text \<open>
  C7. While no two containers share a namespace, the namespaces the recorded intents ask for
  are those of the container map, after every accepted upsert and removal.
\<close>

theorem containers_refine:
  assumes "rs_status resp = 202"
    and inj: "inj_on (containerNamespaces st) (dom (containerNamespaces st))"
    and before: "requested S (recorded_intents (cs_ctl st)) = ran (containerNamespaces st)"
    and request: "(handle_put json (relay_controller visit) d1 d2 req st = (resp, st')
          \<and> (\<forall>p. request_path json req = Inr p \<longrightarrow> p \<notin> ran ((containerNamespaces st)(rq_id req := None))))
      \<or> handle_delete (relay_controller visit) d1 req st = (resp, st')"
  shows "requested S (recorded_intents (cs_ctl st')) = ran (containerNamespaces st')"
  using request
proof (elim disjE conjE)
  assume put: "handle_put json (relay_controller visit) d1 d2 req st = (resp, st')"
    and un: "\<forall>p. request_path json req = Inr p \<longrightarrow> p \<notin> ran ((containerNamespaces st)(rq_id req := None))"
  obtain p where "request_path json req = Inr p" using relay_ctl.handle_put_accepted [OF put assms(1)] by blast
  with un show ?thesis by (intro relay_ctl.handle_put_requested(1) [OF put assms(1) _ inj _ before]) auto
qed (rule relay_ctl.handle_delete_requested [OF _ assms(1) inj before])

theorem containers_refine_witness:
  "requested {} (recorded_intents (cs_ctl demo_mapped)) = {''/proc/12/ns/net''}"
proof -
  let ?x = "demo_put demo_id ''/proc/12/ns/net'' demo_state"
  have put: "handle_put demo_json (relay_controller sorted_list_of_set) Delivered Delivered
      (demo_request demo_id ''/proc/12/ns/net'') demo_state = (fst ?x, demo_mapped)" by (simp add: demo_put_def demo_mapped_def)
  have "requested {} (recorded_intents (cs_ctl demo_mapped)) = ran (containerNamespaces demo_mapped)"
    by (rule containers_refine [OF demo_put_ok [OF demo_pattern(1,3)], of demo_state])
      (use put in \<open>auto simp: demo_state_def demo_recorded requested_def\<close>)
  then show ?thesis by (simp add: demo_mapped_eq)
qed

text \<open>
  Two containers that share a namespace: removing one asks for the removal of the namespace
  the other is still mapped to.
\<close>

theorem shared_namespace_removed:
  "let st = snd (demo_delete demo_id (snd (demo_put (CHR ''b'' # tl demo_id) ''/proc/12/ns/net'' demo_mapped)))
   in containerNamespaces st (CHR ''b'' # tl demo_id) = Some ''/proc/12/ns/net''
      \<and> requested {} (recorded_intents (cs_ctl st)) = {}"
proof -
  have "CHR ''b'' # tl demo_id \<noteq> demo_id" unfolding demo_id_def by code_simp
  then show ?thesis
    by (simp add: demo_mapped_eq demo_put_def handle_put_def demo_delete_def handle_delete_def Let_def demo_pattern
        demo_request_path remove_replaced_def relay_controller_def AddNamespace_def RemoveNamespace_def submit_def
        coord_accept_recorded apply_intent_simps demo_recorded)
qed

text \<open>
  An upsert whose deadline passes after the relay has taken the intent is answered with an
  error and not remembered: the namespace is asked for, and removing the container does not
  ask for its removal.
\<close>

theorem timed_out_upsert_orphaned:
  "let (resp, st) = handle_put demo_json (relay_controller sorted_list_of_set) Delivered (CtxAfterSend (Sentinel DeadlineExceeded))
        (demo_request demo_id ''/proc/12/ns/net'') demo_state;
      (resp', st') = demo_delete demo_id st
   in rs_status resp = 500 \<and> rs_status resp' = 202
      \<and> requested {} (recorded_intents (cs_ctl st')) = {''/proc/12/ns/net''} \<and> containerNamespaces st' = Map.empty"
  by (simp add: handle_put_def demo_delete_def handle_delete_def Let_def demo_pattern demo_request_path demo_state_def
      remove_replaced_def relay_controller_def AddNamespace_def submit_def coord_accept_recorded apply_intent_simps demo_recorded)

end
