(* ===== verification/Descriptors.thy ===== *)
theory Descriptors
  imports Relay
begin

text \<open>
  The descriptors of the process across \<^verbatim>\<open>internal/netns\<close>, \<^verbatim>\<open>internal/socket\<close> and
  \<^verbatim>\<open>internal/relay\<close>: with the kernel's laws on both kinds of calls, the environment made of
  this repository's packages is balanced, so a failed build of an instance releases its
  descriptors, up to those the failing constructor leaves open.
\<close>

section \<open>The kernel's laws on descriptors\<close>

definition fd_laws :: "'k netns_api \<Rightarrow> 'k sock_api \<Rightarrow> ('k \<Rightarrow> nat set) \<Rightarrow> bool" where
  "fd_laws nsapi api opn \<longleftrightarrow>
     (\<forall>p. opens_one opn (unix_Open nsapi p)) \<and> opens_one opn (netns_Get nsapi)
     \<and> (\<forall>fd. keeps_open opn (netns_Set nsapi fd))
     \<and> (\<forall>fd w. opn (snd (handle_Close nsapi fd w)) = opn w - {fd})
     \<and> sock_laws api opn"

lemma fd_lawsD:
  assumes "fd_laws nsapi api opn"
  shows "unix_Open nsapi p w = (Inr fd, w') \<Longrightarrow> fd \<notin> opn w \<and> opn w' = insert fd (opn w)"
    and "unix_Open nsapi p w = (Inl e, w') \<Longrightarrow> opn w' = opn w"
    and "netns_Get nsapi w = (Inr fd, w') \<Longrightarrow> fd \<notin> opn w \<and> opn w' = insert fd (opn w)"
    and "netns_Get nsapi w = (Inl e, w') \<Longrightarrow> opn w' = opn w"
    and "netns_Set nsapi fd w = (r, w') \<Longrightarrow> opn w' = opn w"
    and "handle_Close nsapi fd w = (r, w') \<Longrightarrow> opn w' = opn w - {fd}"
    and "sock_laws api opn"
proof -
  note l = assms [unfolded fd_laws_def keeps_open_def opens_one_def]
  show "unix_Open nsapi p w = (Inr fd, w') \<Longrightarrow> fd \<notin> opn w \<and> opn w' = insert fd (opn w)"
    and "unix_Open nsapi p w = (Inl e, w') \<Longrightarrow> opn w' = opn w"
    and "netns_Get nsapi w = (Inr fd, w') \<Longrightarrow> fd \<notin> opn w \<and> opn w' = insert fd (opn w)"
    and "netns_Get nsapi w = (Inl e, w') \<Longrightarrow> opn w' = opn w"
    and "netns_Set nsapi fd w = (r, w') \<Longrightarrow> opn w' = opn w"
    and "sock_laws api opn"
    using l by metis+
  show "handle_Close nsapi fd w = (r, w') \<Longrightarrow> opn w' = opn w - {fd}"
    using l by (metis snd_conv)
qed

text \<open>
  What \<^verbatim>\<open>Do\<close> adds to its closure: the saved handle is open while the closure runs and
  closed at the end; an error of the closure is never lost.
\<close>

lemma Do_body_opn [consumes 2]:
  assumes laws: "fd_laws nsapi api opn" and run: "Do_body nsapi h vars fn w = (r, v, w')"
  obtains (not_run) "r \<noteq> None" "v = vars" "opn w' = opn w"
  | (ran) fd w2 rf w3 where "fn w2 = (rf, v, w3)" "fd \<notin> opn w" "opn w2 = insert fd (opn w)"
      "opn w' = opn w3 - {fd}" "r = None \<Longrightarrow> rf = None"
proof -
  have cl: "opn w4 = opn w3 - {fd} \<and> (r' = None \<longrightarrow> r = None)"
    if "close_saved nsapi fd (r, w3) = (r', w4)" for fd r w3 r' w4
  proof -
    obtain c w5 where c: "handle_Close nsapi fd w3 = (c, w5)" by fastforce
    with that have "w5 = w4 \<and> (r' = None \<longrightarrow> r = None)" by (cases c) (auto simp: close_saved_def)
    with fd_lawsD(6) [OF laws c] show ?thesis by simp
  qed
  have re: "opn w4 = opn w3 \<and> (r' = None \<longrightarrow> r = None)"
    if "restore_saved nsapi fd (r, w3) = (r', w4)" for fd r w3 r' w4
  proof -
    obtain c w5 where c: "netns_Set nsapi fd w3 = (c, w5)" by fastforce
    with that have "w5 = w4 \<and> (r' = None \<longrightarrow> r = None)" by (cases c) (auto simp: restore_saved_def)
    with fd_lawsD(5) [OF laws c] show ?thesis by simp
  qed
  obtain g w1 where g: "netns_Get nsapi w = (g, w1)" by fastforce
  show thesis
  proof (cases g)
    case (Inl e)
    show thesis using run g Inl fd_lawsD(4) [OF laws, of w e w1] by (intro not_run) (auto simp: Do_body_def)
  next
    case (Inr fd)
    have fd: "fd \<notin> opn w" "opn w1 = insert fd (opn w)" using fd_lawsD(3) [OF laws, of w fd w1] g Inr by auto
    obtain s w2 where s: "netns_Set nsapi (ns_handle h) w1 = (s, w2)" by fastforce
    have o2: "opn w2 = insert fd (opn w)" using fd_lawsD(5) [OF laws s] fd by simp
    show thesis
    proof (cases s)
      case (Some e)
      let ?e = "Some (Wrapf ''failed to set namespace: '' e '''')"
      obtain r3 w3 where c: "close_saved nsapi fd (?e, w2) = (r3, w3)" by fastforce
      with run g Inr s Some have "r = r3" "v = vars" "w' = w3" by (auto simp: Do_body_def)
      with cl [OF c] o2 fd show thesis by (intro not_run) auto
    next
      case None
      obtain rf vf w3 where f: "fn w2 = (rf, vf, w3)" by (metis prod_cases3)
      obtain r4 w4 where r4: "restore_saved nsapi fd (rf, w3) = (r4, w4)" by fastforce
      obtain r5 w5 where r5: "close_saved nsapi fd (r4, w4) = (r5, w5)" by fastforce
      from run g Inr s None f r4 r5 have eq: "r = r5" "v = vf" "w' = w5" by (auto simp: Do_body_def)
      show thesis by (rule ran [of w2 rf w3 fd]) (use f fd o2 cl [OF r5] re [OF r4] eq in auto)
    qed
  qed
qed

section \<open>Sockets and environments\<close>

text \<open>
  A failing \<^verbatim>\<open>NewMulticastSocket\<close> leaves at most two descriptors open: the raw connection when
  the buffers cannot be set, both when the saved namespace cannot be restored.
\<close>

lemma NewMulticastSocket_opn:
  assumes laws: "fd_laws nsapi api opn" and run: "NewMulticastSocket nsapi api grp h t = (r, t')"
  shows "r = Inr s \<Longrightarrow> sock_fds s \<inter> opn (kernel t) = {} \<and> opn (kernel t') = sock_fds s \<union> opn (kernel t)"
    and "r = Inl e \<Longrightarrow> left_open 2 (opn (kernel t)) (opn (kernel t'))"
proof -
  obtain d v t1 where d: "Do nsapi h vars_init (new_socket_fn api grp) t = (d, v, t1)" by (metis prod_cases3)
  from run d have t': "t' = t1" by (auto simp: NewMulticastSocket_def split: option.splits)
  let ?w = "kernel t"
  have both: "(\<forall>s. r = Inr s \<longrightarrow> sock_fds s \<inter> opn ?w = {} \<and> opn (kernel t') = sock_fds s \<union> opn ?w)
     \<and> (\<forall>e. r = Inl e \<longrightarrow> left_open 2 (opn ?w) (opn (kernel t')))"
    using laws Do_kernel [OF d]
  proof (cases rule: Do_body_opn)
    case not_run
    then obtain e where "d = Some e" by blast
    with run d have "r = Inl e" by (simp add: NewMulticastSocket_def)
    with not_run(3) t' show ?thesis by (simp add: left_open_def)
  next
    case (ran fd w2 rf w3)
    note fn = new_socket_fn_laws [OF fd_lawsD(7) [OF laws] ran(1)]
    let ?raw = "set_option (v_rawConn v)"
    have raw: "?raw \<inter> opn ?w = {}" "fd \<notin> ?raw" using fn(3) ran(3) by auto
    have fin: "finite ?raw" "card ?raw \<le> 1" by (cases "v_rawConn v"; simp)+
    show ?thesis
    proof (cases rf)
      case (Some e)
      with fn(1) have "opn w3 = insert fd (opn ?w \<union> ?raw)" using ran(3) by auto
      then have o: "opn (kernel t') = opn ?w \<union> ?raw" using ran(2,4) raw t' by auto
      from o raw have "opn (kernel t') - opn ?w = ?raw" by auto
      with o fin have "left_open 2 (opn ?w) (opn (kernel t'))" by (auto simp: left_open_def)
      moreover from Some ran(5) have "d \<noteq> None" by auto
      with run d have "\<exists>e. r = Inl e" by (auto simp: NewMulticastSocket_def)
      ultimately show ?thesis by auto
    next
      case None
      from fn(2) [OF this] obtain c where c: "v_conn v = Some c" "c \<notin> opn w2" "v_rawConn v \<noteq> Some c"
        "opn w3 = insert c (opn w2 \<union> ?raw)" by blast
      then have o: "opn (kernel t') = insert c ?raw \<union> opn ?w" and cf: "c \<notin> opn ?w"
        using ran(2,3,4) raw t' by auto
      show ?thesis
      proof (cases d)
        case None
        with run d c(1) have "\<And>s. r = Inr s \<Longrightarrow> sock_fds s = insert c ?raw" "\<And>e. r \<noteq> Inl e"
          by (auto simp: NewMulticastSocket_def sock_fds_def)
        with o cf raw show ?thesis by auto
      next
        case (Some e)
        have "opn (kernel t') - opn ?w = insert c ?raw" using o cf raw by auto
        moreover have "card (insert c ?raw) \<le> 2" using fin by (cases "v_rawConn v") (simp_all add: card_insert_if)
        ultimately have "left_open 2 (opn ?w) (opn (kernel t'))" using o fin by (auto simp: left_open_def)
        with Some run d show ?thesis by (auto simp: NewMulticastSocket_def)
      qed
    qed
  qed
  then show "r = Inr s \<Longrightarrow> sock_fds s \<inter> opn (kernel t) = {} \<and> opn (kernel t') = sock_fds s \<union> opn (kernel t)"
    and "r = Inl e \<Longrightarrow> left_open 2 (opn (kernel t)) (opn (kernel t'))" by blast+
qed

lemma on_kernel_snd: "kernel (snd (on_kernel f t)) = snd (f (kernel t))"
  by (simp add: on_kernel_def split: prod.split)

lemma on_kernelD: "on_kernel f t = (r, t') \<Longrightarrow> f (kernel t) = (r, kernel t')"
  by (auto simp: on_kernel_def split: prod.splits)

lemma balanced_os_env:
  assumes laws: "fd_laws nsapi api opn"
  shows "balanced_env (os_env nsapi api) (\<lambda>t. opn (kernel t)) 2"
proof -
  let ?env = "os_env nsapi api" and ?opn = "\<lambda>t. opn (kernel t)"
  have o: "(\<forall>h. r = Inr h \<longrightarrow> ns_handle h \<notin> ?opn t \<and> ?opn t' = insert (ns_handle h) (?opn t))
      \<and> (\<forall>e. r = Inl e \<longrightarrow> ?opn t' = ?opn t)" if "env_Open ?env p t = (r, t')" for p t r t'
  proof -
    have run: "Open nsapi p (kernel t) = (r, kernel t')"
      using on_kernelD [of "Open nsapi p" t r t'] that by (simp add: os_env_def)
    obtain f w where f: "unix_Open nsapi p (kernel t) = (f, w)" by fastforce
    show ?thesis
    proof (cases f)
      case (Inl e)
      with run f fd_lawsD(2) [OF laws f [unfolded Inl]] show ?thesis by (auto simp: Open_def)
    next
      case (Inr fd)
      with run f have "r = Inr \<lparr>ns_handle = fd, ns_path = p\<rparr>" "kernel t' = w" by (simp_all add: Open_def)
      with fd_lawsD(1) [OF laws f [unfolded Inr]] show ?thesis by simp
    qed
  qed
  have c: "?opn (snd (env_SockClose ?env s t)) = ?opn t - sock_fds s" for s t
    using sock_Close_laws [OF fd_lawsD(7) [OF laws], of s "kernel t" "fst (sock_Close api s (kernel t))"]
    by (simp add: os_env_def on_kernel_snd sock_fds_def)
  have h: "?opn (snd (env_HandleClose ?env k t)) = ?opn t - {ns_handle k}" for k t
    using fd_lawsD(6) [OF laws, of "ns_handle k" "kernel t" "fst (handle_Close nsapi (ns_handle k) (kernel t))"]
    by (simp add: os_env_def on_kernel_snd Close_def)
  have n: "env_NewSocket ?env = NewMulticastSocket nsapi api" by (simp add: os_env_def)
  show ?thesis unfolding balanced_env_def n
  proof (intro conjI allI impI)
    show "sock_fds s \<inter> ?opn w = {}" "?opn w' = sock_fds s \<union> ?opn w"
      if "NewMulticastSocket nsapi api g h w = (Inr s, w')" for g h w s w'
      using NewMulticastSocket_opn(1) [OF laws that refl] by simp_all
    show "left_open 2 (?opn w) (?opn w')" if "NewMulticastSocket nsapi api g h w = (Inl e, w')" for g h w e w'
      by (rule NewMulticastSocket_opn(2) [OF laws that refl])
  qed (use o c h in simp_all)
qed

end
