(* ===== verification/DemoKernel.thy ===== *)
theory DemoKernel
  imports Descriptors
begin

text \<open>
  A small kernel that keeps the laws of \<open>netns_laws\<close>, \<open>sock_laws\<close> and \<open>fd_laws\<close>, for the
  witnesses: a thread in a namespace, a table of open descriptors with their namespaces, a
  clock that stands still, two interfaces, and a switch for each failure.
\<close>

record demo_kernel =
  k_ns :: nat
  k_table :: "(nat \<times> nat) list"
  k_failing :: "string list"
  k_wire :: "(byte list \<times> int) list"

definition fresh_fd :: "demo_kernel \<Rightarrow> nat" where
  "fresh_fd w = Suc (foldr max (map fst (k_table w)) 0)"

definition k_open :: "demo_kernel \<Rightarrow> nat set" where
  "k_open w = fst ` set (k_table w)"

definition k_refers :: "demo_kernel \<Rightarrow> nat \<rightharpoonup> nat" where
  "k_refers w = map_of (k_table w)"

definition k_new :: "nat \<Rightarrow> demo_kernel \<Rightarrow> nat result \<times> demo_kernel" where
  "k_new ns w = (Inr (fresh_fd w), w\<lparr>k_table := (fresh_fd w, ns) # k_table w\<rparr>)"

definition k_close :: "nat \<Rightarrow> demo_kernel \<Rightarrow> goerr option \<times> demo_kernel" where
  "k_close fd w = (None, w\<lparr>k_table := filter (\<lambda>x. fst x \<noteq> fd) (k_table w)\<rparr>)"

definition k_try :: "string \<Rightarrow> demo_kernel \<Rightarrow> goerr option \<times> demo_kernel" where
  "k_try call w = (if call \<in> set (k_failing w) then Some (Sentinel (OSErr call)) else None, w)"

definition k_try_new :: "string \<Rightarrow> nat \<Rightarrow> demo_kernel \<Rightarrow> nat result \<times> demo_kernel" where
  "k_try_new call ns w =
     (if call \<in> set (k_failing w) then (Inl (Sentinel (OSErr call)), w) else k_new ns w)"

text \<open>A namespace path of \<open>n\<close> characters names the namespace \<open>n\<close>.\<close>

definition demo_netns :: "demo_kernel netns_api" where
  "demo_netns =
     \<lparr>unix_Open = (\<lambda>path. k_try_new ''open'' (length path)),
      netns_Get = (\<lambda>w. k_try_new ''get'' (k_ns w) w),
      netns_Set = (\<lambda>fd w.
        if ''setns'' \<in> set (k_failing w) then (Some (Sentinel (OSErr ''setns'')), w)
        else (case map_of (k_table w) fd of
                None \<Rightarrow> (Some (Sentinel (OSErr ''bad file descriptor'')), w)
              | Some n \<Rightarrow> (None, w\<lparr>k_ns := n\<rparr>))),
      handle_Close = k_close\<rparr>"

definition demo_ifaces :: "iface list" where
  "demo_ifaces =
     [\<lparr>if_Index = 1, if_Name = ''lo'', if_Up = True, if_Loopback = True, if_Multicast = False\<rparr>,
      \<lparr>if_Index = 2, if_Name = ''eth0'', if_Up = True, if_Loopback = False, if_Multicast = True\<rparr>]"

definition demo_api :: "demo_kernel sock_api" where
  "demo_api =
     \<lparr>time_Now = (\<lambda>w. (1000000000, w)),
      net_Interfaces = (\<lambda>w. (Inr demo_ifaces, w)),
      ListenMulticastUDP = (\<lambda>i g w. k_try_new ''listen'' (k_ns w) w),
      JoinGroup = (\<lambda>c i g. k_try ''join''),
      SetMulticastLoopback = (\<lambda>c. k_try ''loop''),
      SetControlMessage = (\<lambda>c. k_try ''cmsg''),
      ListenIP = (\<lambda>w. k_try_new ''raw'' (k_ns w) w),
      NewRawConn = (\<lambda>c. k_try ''rawconn''),
      SetMulticastInterface = (\<lambda>c i. k_try ''mcastif''),
      SetReadBuffer = (\<lambda>c n. k_try ''rcvbuf''),
      SetWriteBuffer = (\<lambda>c n. k_try ''sndbuf''),
      SetWriteDeadline = (\<lambda>c t. k_try ''deadline''),
      SetMulticastTTL = (\<lambda>c t. k_try ''ttl''),
      packetConn_WriteTo = (\<lambda>c d i g w. (Inr (length d), w\<lparr>k_wire := k_wire w @ [(d, i)]\<rparr>)),
      rawConn_WriteTo = (\<lambda>c h d i w. (None, w\<lparr>k_wire := k_wire w @ [(d, i)]\<rparr>)),
      WriteToUDP = (\<lambda>c d g w. (Inr (length d), w\<lparr>k_wire := k_wire w @ [(d, 0)]\<rparr>)),
      conn_Close = k_close\<rparr>"

section \<open>Its laws\<close>

lemma fresh_fd_notin: "fresh_fd w \<notin> fst ` set (k_table w)"
proof -
  have "n \<le> foldr max (map fst xs) 0" if "n \<in> fst ` set xs" for n :: nat and xs :: "(nat \<times> 'a) list"
    using that by (induction xs) (auto simp: le_max_iff_disj)
  from this [of "fresh_fd w" "k_table w"] show ?thesis by (auto simp: fresh_fd_def)
qed

lemma k_new_opens: "opens_one k_open (k_new ns)"
  using fresh_fd_notin by (auto simp: opens_one_def k_new_def k_open_def)

lemma k_try_new_opens: "opens_one k_open (\<lambda>w. k_try_new call (f w) w)"
  using fresh_fd_notin by (auto simp: opens_one_def k_try_new_def k_new_def k_open_def split: if_splits)

lemma k_try_keeps: "keeps_open opn (k_try call)"
  by (simp add: keeps_open_def k_try_def)

lemma k_close_opn: "k_open (snd (k_close fd w)) = k_open w - {fd}"
  by (auto simp: k_open_def k_close_def)

lemma demo_fd_laws: "fd_laws demo_netns demo_api k_open"
proof -
  have "k_open w' = k_open w - {c}" if "k_close c w = (r, w')" for c w r w'
    using k_close_opn [of c w] that by simp
  moreover have "keeps_open k_open (netns_Set demo_netns fd)" for fd
    by (auto simp: keeps_open_def demo_netns_def k_open_def split: if_splits option.splits)
  moreover have "keeps_open k_open (\<lambda>w. (x, w))" for x :: "iface list result" by (simp add: keeps_open_def)
  ultimately show ?thesis
    using k_try_new_opens [of _ "\<lambda>w. _"] k_try_new_opens [of _ k_ns] k_try_keeps [of k_open] k_close_opn
    unfolding fd_laws_def sock_laws_def
    by (auto simp: demo_netns_def demo_api_def)
qed

lemma demo_netns_laws: "netns_laws demo_netns k_ns k_refers"
proof -
  have del: "map_of (filter (\<lambda>x. fst x \<noteq> fd) t) = (map_of t)(fd := None)" for fd :: nat and t :: "(nat \<times> nat) list"
    by (induction t) auto
  have "map_of (k_table w) (fresh_fd w) = None" for w
    using fresh_fd_notin [of w] by (simp add: map_of_eq_None_iff)
  then show ?thesis unfolding netns_laws_def
    by (auto simp: demo_netns_def k_refers_def k_try_new_def k_new_def k_close_def del split: if_splits option.splits)
qed

definition demo_boot :: demo_kernel where
  "demo_boot = \<lparr>k_ns = 0, k_table = [], k_failing = [], k_wire = []\<rparr>"

definition demo_thread :: "string list \<Rightarrow> demo_kernel os_thread" where
  "demo_thread failing = \<lparr>lock_depth = 0, kernel = demo_boot\<lparr>k_failing := failing\<rparr>\<rparr>"

text \<open>Running the code on it by rewriting.\<close>

lemmas demo_run = demo_netns_def demo_api_def demo_ifaces_def k_try_new_def k_new_def fresh_fd_def k_close_def
  k_try_def Do_def Do_body_def LockOSThread_def UnlockOSThread_def restore_saved_def close_saved_def
  NewMulticastSocket_def new_socket_fn_def configure_conn_def open_raw_def set_buffers_def buffer_failed_def
  enableMulticastLoopback_def usable_interfaces_def vars_init_def sock_Close_def Open_def Close_def Let_def

end
