(* ===== verification/HostProperties.thy ===== *)
theory HostProperties
  imports DemoKernel Config
begin

text \<open>
  The properties of \<^verbatim>\<open>internal/netns\<close>, \<^verbatim>\<open>internal/config\<close> and of the descriptors that sockets
  and instances hold, with witnesses on the kernel of \<open>DemoKernel\<close>.
\<close>

section \<open>Namespaces\<close>

text \<open>
  A namespace path is accepted exactly when it is absolute once trimmed, and is then
  cleaned: absolute, and unchanged by cleaning it again.
\<close>

lemma canonical_paths:
  "(CanonicalizePath p = Inr c \<longleftrightarrow> IsAbs (TrimSpace p) \<and> c = Clean (TrimSpace p))
   \<and> (CanonicalizePath p = Inr c \<longrightarrow> IsAbs c \<and> Clean c = c)"
  using IsAbs_Clean Clean_Clean by (auto simp: CanonicalizePath_Inr_iff)


definition demo_in_netns :: "demo_kernel os_thread \<Rightarrow> (demo_kernel \<Rightarrow> goerr option \<times> nat \<times> demo_kernel)
    \<Rightarrow> goerr option \<times> nat \<times> demo_kernel os_thread" where
  "demo_in_netns t fn =
     (case Open demo_netns ''/a'' (kernel t) of
        (Inr h, w) \<Rightarrow> Do demo_netns h 0 fn (t\<lparr>kernel := w\<rparr>)
      | (Inl e, w) \<Rightarrow> (Some e, 0, t\<lparr>kernel := w\<rparr>))"


text \<open>
  When the namespace cannot be restored, \<^verbatim>\<open>Do\<close> still unlocks the OS thread, which stays in
  the foreign namespace and goes back to the scheduler with it.
\<close>

theorem do_unlocks_in_foreign_namespace:
  "\<exists>e v t'. demo_in_netns (demo_thread []) (\<lambda>w. (None, 0, w\<lparr>k_failing := [''setns'']\<rparr>)) = (Some e, v, t')
     \<and> k_ns (kernel t') = 2 \<and> lock_depth t' = 0"
  by (simp add: demo_in_netns_def demo_thread_def demo_boot_def Open_def demo_netns_def k_try_new_def k_new_def
      fresh_fd_def Do_def Do_body_def LockOSThread_def UnlockOSThread_def restore_saved_def close_saved_def
      k_close_def Let_def)

text \<open>
  C23. The closure runs in the namespace of the handle or not at all: two closures that agree
  there cannot be told apart through \<^verbatim>\<open>Do\<close>.
\<close>

theorem do_confined:
  assumes "netns_laws api cur refers"
    and "\<And>w. refers w (ns_handle h) = Some (cur w) \<Longrightarrow> fn w = gn w"
  shows "Do api h vars fn t = Do api h vars gn t"
proof -
  have "Do_body api h vars fn w = Do_body api h vars gn w" for w
    by (rule Do_body_cong [OF assms(1)]) (rule assms(2))
  then show ?thesis by (simp only: Do_def)
qed

theorem do_confined_witness:
  "Do demo_netns \<lparr>ns_handle = 1, ns_path = ''/a''\<rparr> 0 (\<lambda>w. (None, k_ns w, w)) (demo_thread [])
   = Do demo_netns \<lparr>ns_handle = 1, ns_path = ''/a''\<rparr> 0
       (\<lambda>w. if k_refers w 1 = Some (k_ns w) then (None, k_ns w, w) else (Some (New ''elsewhere''), 7, w)) (demo_thread [])"
  by (rule do_confined [OF demo_netns_laws]) simp

section \<open>Configuration\<close>

text \<open>
  C32. A socket mode is accepted exactly when it is a string of octal digits whose value is
  between 1 and 0777, and it is then that value.
\<close>

theorem socket_mode_octal:
  "parseSocketMode v = Inr m \<longleftrightarrow>
     (\<forall>c \<in> set v. is_octal c) \<and> 0 < octal_value 0 v \<and> octal_value 0 v < 512
     \<and> m = word_of_nat (octal_value 0 v)"
  by (rule parseSocketMode_Inr_iff)

theorem socket_mode_octal_witness: "parseSocketMode ''0660'' = Inr 432"
proof -
  have "(\<forall>c \<in> set ''0660''. is_octal c) \<and> octal_value 0 ''0660'' = 432" by code_simp
  then show ?thesis using socket_mode_octal [of "''0660''" 432] by simp
qed

text \<open>
  C31. What every accepted configuration satisfies: the initial namespaces are the given
  paths, canonical and existing; there is a group and every group is multicast; the control
  socket's path is empty or absolute; the timeout is positive; the mode is not zero and has
  permission bits only.
\<close>

theorem parsed_config:
  assumes "Parse env args = Inr c"
  shows "(\<forall>p \<in> set (InitialNamespaces c). IsAbs p \<and> Clean p = p \<and> os_Stat env p = None)
    \<and> Groups c \<noteq> [] \<and> (\<forall>g \<in> set (Groups c). IsMulticast (addr_IP g) \<and> Inr g \<in> range (ResolveUDPAddr env))
    \<and> (ControlSocketPath c = '''' \<or> IsAbs (ControlSocketPath c)) \<and> 0 < ControlTimeout c
    \<and> ControlSocketMode c \<noteq> 0 \<and> ControlSocketMode c AND perm_bits = ControlSocketMode c"
proof -
  obtain v where v: "config_of_flags env v = Inr c" by (rule Parse_flags [OF assms])
  note c = config_of_flags_Inr [OF v]
  have "\<forall>p \<in> set (InitialNamespaces c). IsAbs p \<and> Clean p = p \<and> os_Stat env p = None"
    using canonicalize_namespaces_Inr [OF c(1)] by blast
  moreover have "\<forall>g \<in> set (Groups c). IsMulticast (addr_IP g) \<and> Inr g \<in> range (ResolveUDPAddr env)"
    using Parse_group [OF assms] by (metis rangeI)
  ultimately show ?thesis using Parse_mode [OF assms] Groups_nonempty [OF v] c(2,3) by blast
qed

definition demo_mdns :: udp_addr where
  "demo_mdns = \<lparr>addr_IP = [224, 0, 0, 251], addr_Port = 5353, addr_Zone = ''''\<rparr>"

definition demo_config_env :: config_env where
  "demo_config_env =
     \<lparr>flags_Parse = (\<lambda>args. Inr [FNs '' /run/netns/a/'', FControlSocket ''/run/r.sock'', FControlSocketMode ''0660'']),
      os_Stat = (\<lambda>path. None), ResolveUDPAddr = (\<lambda>grp. Inr demo_mdns)\<rparr>"

definition demo_config :: config where
  "demo_config =
     \<lparr>InitialNamespaces = [''/run/netns/a''], Groups = [demo_mdns, demo_mdns], Verbose = False,
      ControlSocketPath = ''/run/r.sock'', ControlTimeout = 3000000000, ControlSocketMode = 432,
      ControlSocketGroup = ''''\<rparr>"

lemma demo_Parse: "Parse demo_config_env [] = Inr demo_config"
proof -
  have 1: "CanonicalizePath '' /run/netns/a/'' = Inr ''/run/netns/a''" by code_simp
  have 2: "parseSocketMode ''0660'' = Inr 432" by code_simp
  have 3: "IsMulticast [224, 0, 0, 251]" by code_simp
  have 4: "TrimSpace '''' = ''''" by code_simp
  show ?thesis
    by (simp add: Parse_def demo_config_env_def flag_defaults_def namespacesFlag_Set_def config_of_flags_def
        canonicalizeStartupNamespacePath_def 1 2 3 4 default_groups_def parseMulticastGroup_def demo_mdns_def
        demo_config_def Let_def second_def millisecond_def)
qed

theorem parsed_config_witness:
  "IsAbs (ControlSocketPath demo_config) \<and> ControlSocketMode demo_config AND perm_bits = 432 \<and> Groups demo_config \<noteq> []"
  using parsed_config [OF demo_Parse] by (auto simp: demo_config_def)

section \<open>Sockets and instances\<close>





definition demo_host :: "string list \<Rightarrow> demo_kernel os_thread" where
  "demo_host failing =
     \<lparr>lock_depth = 0, kernel = \<lparr>k_ns = 0, k_table = [(1, 2)], k_failing = failing, k_wire = []\<rparr>\<rparr>"

definition demo_handle :: NSHandle where
  "demo_handle = \<lparr>ns_handle = 1, ns_path = ''/a''\<rparr>"

definition demo_socket :: MulticastSocket where
  "demo_socket = \<lparr>sock_conn = 3, sock_rawConn = Some 4, sock_group = demo_mdns, interfaceIndex = 2,
     interfaceIndices = [2], recentTx = None\<rparr>"

definition demo_opened :: "demo_kernel os_thread" where
  "demo_opened =
     \<lparr>lock_depth = 0, kernel = \<lparr>k_ns = 0, k_table = [(4, 2), (3, 2), (1, 2)], k_failing = [], k_wire = []\<rparr>\<rparr>"

lemma demo_NewSocket: "NewMulticastSocket demo_netns demo_api demo_mdns demo_handle (demo_host []) = (Inr demo_socket, demo_opened)"
  by (simp add: demo_run demo_host_def demo_handle_def demo_socket_def demo_opened_def)



text \<open>
  C11. A socket owns the descriptors it was built with: they are new, and \<^verbatim>\<open>Close\<close> gives back
  exactly those, whatever errors it meets. A construction that fails leaves at most two
  descriptors open.
\<close>

theorem socket_lifecycle:
  assumes "fd_laws nsapi api opn" and "NewMulticastSocket nsapi api grp h t = (x, t')"
  shows "case x of
      Inl e \<Rightarrow> left_open 2 (opn (kernel t)) (opn (kernel t'))
    | Inr s \<Rightarrow> sock_fds s \<inter> opn (kernel t) = {} \<and> opn (kernel t') = sock_fds s \<union> opn (kernel t)
        \<and> opn (snd (sock_Close api s (kernel t'))) = opn (kernel t)"
proof (cases x)
  case (Inl e)
  with NewMulticastSocket_opn(2) [OF assms] show ?thesis by simp
next
  case (Inr s)
  note new = NewMulticastSocket_opn(1) [OF assms Inr]
  have "opn (snd (sock_Close api s (kernel t'))) = opn (kernel t') - sock_fds s"
    using sock_Close_laws [OF fd_lawsD(7) [OF assms(1)], of s "kernel t'" "fst (sock_Close api s (kernel t'))"]
    by (simp add: sock_fds_def)
  also have "\<dots> = opn (kernel t)" using new by blast
  finally show ?thesis using new Inr by simp
qed

theorem socket_lifecycle_witness:
  "k_open (kernel demo_opened) = {1, 3, 4} \<and> k_open (snd (sock_Close demo_api demo_socket (kernel demo_opened))) = {1}"
  using socket_lifecycle [OF demo_fd_laws demo_NewSocket]
  by (simp add: sock_fds_def demo_socket_def demo_opened_def demo_host_def k_open_def insert_commute)

text \<open>
  The two leaks: the raw connection stays open when the write buffer cannot be set, and a
  socket that was built completely stays open when the saved namespace handle cannot be
  closed.
\<close>

theorem raw_connection_leaks:
  "\<exists>e t'. NewMulticastSocket demo_netns demo_api demo_mdns demo_handle (demo_host [''sndbuf'']) = (Inl e, t')
     \<and> k_open (kernel (demo_host [''sndbuf''])) = {1} \<and> k_open (kernel t') = {1, 4}"
  by (simp add: demo_run demo_host_def demo_handle_def k_open_def insert_commute eval_nat_numeral)

theorem built_socket_leaks:
  "\<exists>e t'. NewMulticastSocket (demo_netns\<lparr>handle_Close := \<lambda>fd w. (Some (Sentinel (OSErr ''EIO'')), snd (k_close fd w))\<rparr>)
       demo_api demo_mdns demo_handle (demo_host []) = (Inl e, t')
     \<and> k_open (kernel t') = {1, 3, 4}"
  by (simp add: demo_run demo_host_def demo_handle_def k_open_def insert_commute eval_nat_numeral)

text \<open>
  C10. Building an instance from this repository's packages either opens exactly the
  descriptors the instance holds, or rolls back to what was open before, up to what the
  failing socket constructor left.
\<close>

theorem build_rollback:
  assumes "fd_laws nsapi api opn" and "buildInstance (os_env nsapi api) groups path t = (x, t')"
  shows "case x of
      Inl e \<Rightarrow> left_open 2 (opn (kernel t)) (opn (kernel t'))
    | Inr inst \<Rightarrow> inst_fds inst \<inter> opn (kernel t) = {} \<and> opn (kernel t') = opn (kernel t) \<union> inst_fds inst"
  using buildInstance_opn [OF balanced_os_env [OF assms(1)] assms(2)] by (cases x) auto

definition demo_built :: "nsInstance \<times> demo_kernel os_thread" where
  "demo_built = (case buildInstance (os_env demo_netns demo_api) [demo_mdns] ''/a'' (demo_thread []) of
     (Inr inst, t) \<Rightarrow> (inst, t))"

lemma demo_builds:
  "buildInstance (os_env demo_netns demo_api) [demo_mdns] ''/a'' (demo_thread []) = (Inr (fst demo_built), snd demo_built)"
  by (simp add: demo_built_def demo_run demo_thread_def demo_boot_def buildInstance_def os_env_def on_kernel_def)

theorem build_rollback_witness: "k_open (kernel (snd demo_built)) = inst_fds (fst demo_built)"
  using build_rollback [OF demo_fd_laws demo_builds]
  by (simp add: demo_thread_def demo_boot_def k_open_def)

text \<open>C36. Building an instance and tearing it down leaves open what was open before.\<close>

theorem build_teardown:
  assumes "fd_laws nsapi api opn" and "buildInstance (os_env nsapi api) groups path t = (Inr inst, t')"
  shows "opn (kernel (snd (teardown (os_env nsapi api) inst t'))) = opn (kernel t)"
proof -
  note bal = balanced_os_env [OF assms(1)]
  have "opn (kernel (snd (teardown (os_env nsapi api) inst t'))) = opn (kernel t') - inst_fds inst"
    using teardown_opn [OF bal, of inst t'] by (metis prod.collapse)
  also have "\<dots> = opn (kernel t)" using buildInstance_opn(2) [OF bal assms(2) refl] by blast
  finally show ?thesis .
qed

theorem build_teardown_witness:
  "k_open (kernel (snd (teardown (os_env demo_netns demo_api) (fst demo_built) (snd demo_built)))) = {}"
  using build_teardown [OF demo_fd_laws demo_builds] by (simp add: demo_thread_def demo_boot_def k_open_def)

end
