(* ===== verification/PacketDecode.thy ===== *)
theory PacketDecode
  imports Middleware GoStrings
begin

text \<open>
  \<^verbatim>\<open>internal/middleware/packet_decode.go\<close>: the attributes a packet is logged with, decoded
  as mDNS or SSDP by its group and port, and the library functions on text the SSDP decoder
  uses. The DNS parser (\<^verbatim>\<open>x/net/dns/dnsmessage\<close>), upper case outside ASCII and the verb
  \<^verbatim>\<open>%q\<close> are parameters. \<open>None\<close> is a panic; the lemmas show that there is none, that a
  preview determines the bytes it shows, and what a well-formed message decodes to.
\<close>

section \<open>Text\<close>

definition bytes_string :: "byte list \<Rightarrow> string" where
  "bytes_string bs = map (\<lambda>b. char_of (unat b)) bs"

text \<open>\<^verbatim>\<open>strings.ReplaceAll(s, "\r\n", "\n")\<close>.\<close>

fun ReplaceAll_crlf :: "string \<Rightarrow> string" where
  "ReplaceAll_crlf (c # d # cs) =
     (if c = CHR 0x0D \<and> d = CHR 0x0A then CHR 0x0A # ReplaceAll_crlf cs else c # ReplaceAll_crlf (d # cs))"
| "ReplaceAll_crlf cs = cs"

definition upper_ascii :: "char \<Rightarrow> char" where
  "upper_ascii c = (let n = (of_char c :: nat) in if 97 \<le> n \<and> n \<le> 122 then char_of (n - 32) else c)"

definition lower_ascii :: "char \<Rightarrow> char" where
  "lower_ascii c = (let n = (of_char c :: nat) in if 65 \<le> n \<and> n \<le> 90 then char_of (n + 32) else c)"

definition ToUpper :: "(string \<Rightarrow> string) \<Rightarrow> string \<Rightarrow> string" where
  "ToUpper unicode_upper s =
     (if list_all (\<lambda>c. (of_char c :: nat) < 128) s then map upper_ascii s else unicode_upper s)"

definition ToLower_ascii :: "string \<Rightarrow> string" where
  "ToLower_ascii s = map lower_ascii s"

text \<open>\<^verbatim>\<open>strings.Fields\<close>: \<open>cur\<close> is the field being read.\<close>

function Fields_from :: "string \<Rightarrow> string \<Rightarrow> string list" where
  "Fields_from cur s =
     (case s of
        [] \<Rightarrow> if cur = [] then [] else [cur]
      | c # cs \<Rightarrow>
          (case find (\<lambda>r. r \<noteq> [] \<and> prefix r s) space_runes of
             None \<Rightarrow> Fields_from (cur @ [c]) cs
           | Some r \<Rightarrow> (if cur = [] then [] else [cur]) @ Fields_from [] (drop (length r) s)))"
  by pat_completeness auto
termination
  by (relation "measure (\<lambda>(cur, s). length s)") (auto simp: find_Some_iff prefix_def)

declare Fields_from.simps [simp del]

definition Fields :: "string \<Rightarrow> string list" where
  "Fields s = Fields_from [] s"

text \<open>\<^verbatim>\<open>strings.Cut(s, ":")\<close>.\<close>

definition Cut_colon :: "string \<Rightarrow> (string \<times> string) option" where
  "Cut_colon s =
     (if CHR '':'' \<in> set s
      then Some (takeWhile (\<lambda>c. c \<noteq> CHR '':'') s, tl (dropWhile (\<lambda>c. c \<noteq> CHR '':'') s))
      else None)"

text \<open>
  \<^verbatim>\<open>textproto.CanonicalMIMEHeaderKey\<close>: a key of token bytes gets upper case at its start
  and after each hyphen and lower case elsewhere; any other string is left alone.
\<close>

definition is_token_char :: "char \<Rightarrow> bool" where
  "is_token_char c \<longleftrightarrow>
     c \<in> set ''!#$%&*+-.^_`|~0123456789ABCDEFGHIJKLMNOPQRSTUVWXYZabcdefghijklmnopqrstuvwxyz''
     \<or> c = CHR 0x27"

fun canonical_from :: "bool \<Rightarrow> string \<Rightarrow> string" where
  "canonical_from upper [] = []"
| "canonical_from upper (c # cs) =
     (if upper then upper_ascii c else lower_ascii c) # canonical_from (c = CHR ''-'') cs"

definition CanonicalMIMEHeaderKey :: "string \<Rightarrow> string" where
  "CanonicalMIMEHeaderKey s = (if list_all is_token_char s then canonical_from True s else s)"

section \<open>Attributes\<close>

datatype attr_value = AString string | AUint64 nat | ABool bool | AInt int

type_synonym attr = "string \<times> attr_value"

definition hexPreviewBytes :: nat where
  "hexPreviewBytes = 64"

definition hexPreview :: "byte list \<Rightarrow> string" where
  "hexPreview data =
     (let data = (if hexPreviewBytes < length data then take hexPreviewBytes data else data)
      in EncodeToString data)"

definition unknownPacketAttrs :: "byte list \<Rightarrow> attr list" where
  "unknownPacketAttrs data =
     [(''protocol'', AString ''unknown''), (''hex_preview'', AString (hexPreview data))]"

definition decodeErrorAttrs :: "string \<Rightarrow> byte list \<Rightarrow> goerr \<Rightarrow> attr list" where
  "decodeErrorAttrs protocol data err =
     [(''protocol'', AString protocol), (''error'', AString (error_string err)),
      (''hex_preview'', AString (hexPreview data))]"

text \<open>What the decoder reads of a parsed DNS message: a question is its name and type.\<close>

record dns_message =
  dns_ID :: "16 word"
  dns_Response :: bool
  dns_Questions :: "(string \<times> string) list"
  dns_Answers :: nat
  dns_Authorities :: nat
  dns_Additionals :: nat

record decode_env =
  dns_Unpack :: "byte list \<Rightarrow> dns_message result"
  unicode_ToUpper :: "string \<Rightarrow> string"
  fmt_Quote :: "string \<Rightarrow> string"

definition decodeMDNS :: "decode_env \<Rightarrow> byte list \<Rightarrow> attr list result" where
  "decodeMDNS env data =
     (case dns_Unpack env data of
        Inl err \<Rightarrow> Inl err
      | Inr msg \<Rightarrow>
          Inr ([(''protocol'', AString ''mdns''), (''id'', AUint64 (unat (dns_ID msg))),
                (''response'', ABool (dns_Response msg)), (''questions'', AInt (int (length (dns_Questions msg)))),
                (''answers'', AInt (int (dns_Answers msg))), (''authorities'', AInt (int (dns_Authorities msg))),
                (''additionals'', AInt (int (dns_Additionals msg)))]
               @ (case dns_Questions msg of
                    [] \<Rightarrow> []
                  | (name, ty) # _ \<Rightarrow> [(''question_name'', AString name), (''question_type'', AString ty)])))"

section \<open>SSDP\<close>

definition validSSDPStartLine :: "decode_env \<Rightarrow> string \<Rightarrow> bool" where
  "validSSDPStartLine env line =
     (let upper = ToUpper (unicode_ToUpper env) line
      in HasPrefix upper ''HTTP/1.'' \<or> HasSuffix upper '' HTTP/1.0'' \<or> HasSuffix upper '' HTTP/1.1'')"

text \<open>\<^verbatim>\<open>headers.Add\<close>, which makes the key canonical itself.\<close>

definition header_Add :: "(string \<times> string) list \<Rightarrow> string \<Rightarrow> string \<Rightarrow> (string \<times> string) list" where
  "header_Add headers name value = headers @ [(CanonicalMIMEHeaderKey name, value)]"

text \<open>
  The loop over the lines after the first; the headers in the order they are added. The
  lines after an empty one are the body.
\<close>

fun ssdp_headers :: "decode_env \<Rightarrow> string list \<Rightarrow> (string \<times> string) list \<Rightarrow> (string \<times> string) list result" where
  "ssdp_headers env [] headers = Inr headers"
| "ssdp_headers env (l # ls) headers =
     (let line = TrimSpace l
      in if line = '''' then Inr headers
         else (case Cut_colon line of
             None \<Rightarrow> Inl (New (''invalid header '' @ fmt_Quote env line))
           | Some (name, value) \<Rightarrow>
               if TrimSpace name = '''' then Inl (New (''invalid header '' @ fmt_Quote env line))
               else ssdp_headers env ls
                      (header_Add headers (CanonicalMIMEHeaderKey (TrimSpace name)) (TrimSpace value))))"

text \<open>\<^verbatim>\<open>headers.Get\<close>: the first value under the canonical key, or the empty string.\<close>

definition header_Get :: "(string \<times> string) list \<Rightarrow> string \<Rightarrow> string" where
  "header_Get headers name =
     (case map_of headers (CanonicalMIMEHeaderKey name) of None \<Rightarrow> '''' | Some v \<Rightarrow> v)"

definition ssdp_logged :: "string list" where
  "ssdp_logged = [''ST'', ''NT'', ''USN'', ''Location'']"

definition header_attrs :: "(string \<times> string) list \<Rightarrow> attr list" where
  "header_attrs headers =
     map (\<lambda>name. (ToLower_ascii name, AString (header_Get headers name)))
       (filter (\<lambda>name. header_Get headers name \<noteq> '''') ssdp_logged)"

text \<open>The attributes of the start line; \<open>None\<close> when \<^verbatim>\<open>parts\<close> is indexed out of range.\<close>

definition start_line_attrs :: "decode_env \<Rightarrow> string \<Rightarrow> attr list option" where
  "start_line_attrs env startLine =
     (case Fields startLine of
        [] \<Rightarrow> None
      | part # parts \<Rightarrow>
          Some (if HasPrefix (ToUpper (unicode_ToUpper env) startLine) ''HTTP/''
                then [(''status'', AString (sep_concat '' '' parts))]
                else [(''method'', AString (ToUpper (unicode_ToUpper env) part))]))"

definition decodeSSDP :: "decode_env \<Rightarrow> byte list \<Rightarrow> attr list result option" where
  "decodeSSDP env data =
     (let text = ReplaceAll_crlf (bytes_string data)
      in case split_on CHR 0x0A text of
           [] \<Rightarrow> Some (Inl (New ''missing start line''))
         | l # ls \<Rightarrow>
             if TrimSpace l = '''' then Some (Inl (New ''missing start line''))
             else
               (let startLine = TrimSpace l
                in if \<not> validSSDPStartLine env startLine
                   then Some (Inl (New (''invalid start line '' @ fmt_Quote env startLine)))
                   else (case start_line_attrs env startLine of
                       None \<Rightarrow> None
                     | Some attrs \<Rightarrow>
                         (case ssdp_headers env ls [] of
                            Inl err \<Rightarrow> Some (Inl err)
                          | Inr headers \<Rightarrow>
                              Some (Inr ([(''protocol'', AString ''ssdp'')] @ attrs @ header_attrs headers))))))"

section \<open>Dispatch\<close>

definition mdnsIPv4 :: ip where
  "mdnsIPv4 = v4InV6Prefix @ [224, 0, 0, 251]"

definition mdnsIPv6 :: ip where
  "mdnsIPv6 = [255, 2] @ replicate 13 0 @ [251]"

definition ssdpIPv4 :: ip where
  "ssdpIPv4 = v4InV6Prefix @ [239, 255, 255, 250]"

definition packetData :: "packet option \<Rightarrow> byte list" where
  "packetData pkt = (case pkt of None \<Rightarrow> [] | Some p \<Rightarrow> bytes_of (Data p))"

definition decodePacket :: "decode_env \<Rightarrow> packet option \<Rightarrow> attr list option" where
  "decodePacket env pkt =
     (case pkt of
        None \<Rightarrow> Some (unknownPacketAttrs (packetData pkt))
      | Some p \<Rightarrow>
          (case Group p of
             None \<Rightarrow> Some (unknownPacketAttrs (packetData pkt))
           | Some g \<Rightarrow>
               let data = bytes_of (Data p)
               in if addr_Port g = 5353 \<and> (IP_Equal (addr_IP g) mdnsIPv4 \<or> IP_Equal (addr_IP g) mdnsIPv6)
                  then (case decodeMDNS env data of
                      Inl err \<Rightarrow> Some (decodeErrorAttrs ''mdns'' data err)
                    | Inr attrs \<Rightarrow> Some attrs)
                  else if addr_Port g = 1900 \<and> IP_Equal (addr_IP g) ssdpIPv4
                  then (case decodeSSDP env data of
                      None \<Rightarrow> None
                    | Some (Inl err) \<Rightarrow> Some (decodeErrorAttrs ''ssdp'' data err)
                    | Some (Inr attrs) \<Rightarrow> Some attrs)
                  else Some (unknownPacketAttrs data)))"

section \<open>No panic\<close>

lemma trim_runes_no_prefix:
  "r \<in> set rs \<Longrightarrow> r \<noteq> [] \<Longrightarrow> \<not> prefix r (trim_runes rs s)"
proof (induction rs s rule: trim_runes.induct)
  case (1 rs s)
  show ?case
  proof (cases "find (\<lambda>r. r \<noteq> [] \<and> prefix r s) rs")
    case None
    have "trim_runes rs s = s" by (subst trim_runes.simps) (simp add: None)
    moreover have "\<not> prefix r s" using None 1(2,3) by (auto simp: find_None_iff)
    ultimately show ?thesis by simp
  next
    case (Some q)
    with 1 show ?thesis by (subst trim_runes.simps) simp
  qed
qed

lemma trim_runes_suffix: "suffix (trim_runes rs s) s"
proof (induction rs s rule: trim_runes.induct)
  case (1 rs s)
  show ?case
    using 1 by (subst trim_runes.simps) (auto split: option.split intro: suffix_order.trans [OF _ suffix_drop])
qed

lemma TrimSpace_no_leading:
  assumes "r \<in> set space_runes" and "r \<noteq> []"
  shows "\<not> prefix r (TrimSpace s)"
proof
  let ?u = "trim_runes space_runes s"
  assume "prefix r (TrimSpace s)"
  moreover have "prefix (TrimSpace s) ?u"
    using trim_runes_suffix [of "map rev space_runes" "rev ?u"] by (simp add: TrimSpace_def suffix_to_prefix)
  ultimately have "prefix r ?u" by (rule prefix_order.trans)
  with trim_runes_no_prefix [OF assms] show False by blast
qed

lemma Fields_from_nonempty: "cur \<noteq> [] \<Longrightarrow> Fields_from cur s \<noteq> []"
proof (induction cur s rule: Fields_from.induct)
  case (1 cur s)
  then show ?case by (subst Fields_from.simps) (auto split: list.split option.split)
qed

lemma Fields_TrimSpace:
  assumes "TrimSpace s \<noteq> ''''"
  shows "Fields (TrimSpace s) \<noteq> []"
proof -
  obtain c cs where c: "TrimSpace s = c # cs" using assms by (cases "TrimSpace s") auto
  have "find (\<lambda>r. r \<noteq> [] \<and> prefix r (TrimSpace s)) space_runes = None"
    using TrimSpace_no_leading [of _ s] by (auto simp: find_None_iff)
  then have "Fields (TrimSpace s) = Fields_from [c] cs"
    unfolding Fields_def by (subst Fields_from.simps) (simp add: c)
  then show ?thesis by (simp add: Fields_from_nonempty)
qed

lemma start_line_attrs_Some: "TrimSpace s \<noteq> '''' \<Longrightarrow> start_line_attrs env (TrimSpace s) \<noteq> None"
  using Fields_TrimSpace [of s] by (auto simp: start_line_attrs_def split: list.split)

lemma decodeSSDP_Some: "decodeSSDP env data \<noteq> None"
  using start_line_attrs_Some [of "hd (split_on CHR 0x0A (ReplaceAll_crlf (bytes_string data)))" env]
  by (auto simp: decodeSSDP_def Let_def split: list.split option.split sum.split)

lemma decodePacket_Some: "decodePacket env pkt \<noteq> None"
  using decodeSSDP_Some [of env "packetData pkt"]
  by (auto simp: decodePacket_def packetData_def Let_def split: option.split sum.split)

section \<open>The first attribute\<close>

lemma decodeMDNS_protocol: "decodeMDNS env data = Inr attrs \<Longrightarrow> hd attrs = (''protocol'', AString ''mdns'')"
  by (auto simp: decodeMDNS_def split: sum.splits list.splits)

lemma decodeSSDP_protocol: "decodeSSDP env data = Some (Inr attrs) \<Longrightarrow> hd attrs = (''protocol'', AString ''ssdp'')"
  by (auto simp: decodeSSDP_def Let_def split: list.splits if_splits option.splits sum.splits)

section \<open>The hexadecimal preview\<close>

text \<open>\<^verbatim>\<open>hex.DecodeString\<close>, the reference the preview is read back with.\<close>

definition hex_value :: "char \<Rightarrow> nat option" where
  "hex_value c = (let n = (of_char c :: nat) in
     if 48 \<le> n \<and> n \<le> 57 then Some (n - 48) else if 97 \<le> n \<and> n \<le> 102 then Some (n - 87) else None)"

fun hex_decode :: "string \<Rightarrow> byte list option" where
  "hex_decode [] = Some []"
| "hex_decode (a # b # s) =
     (case (hex_value a, hex_value b, hex_decode s) of
        (Some x, Some y, Some bs) \<Rightarrow> Some (word_of_nat (16 * x + y) # bs)
      | _ \<Rightarrow> None)"
| "hex_decode [a] = None"

lemma hex_value_digit: "n < 16 \<Longrightarrow> hex_value (hex_digit n) = Some n"
proof -
  have "\<forall>n \<in> set [0..<16]. hex_value (hex_digit n) = Some n" by code_simp
  then show "n < 16 \<Longrightarrow> hex_value (hex_digit n) = Some n" by simp
qed

lemma hex_decode_encode: "hex_decode (EncodeToString bs) = Some bs"
proof (induction bs)
  case (Cons b bs)
  have "unat b div 16 < 16" using unat_byte [of b] by simp
  then have "hex_value (hex_digit (unat b div 16)) = Some (unat b div 16)" by (rule hex_value_digit)
  moreover have "hex_value (hex_digit (unat b mod 16)) = Some (unat b mod 16)" by (rule hex_value_digit) simp
  moreover have "word_of_nat (16 * (unat b div 16) + unat b mod 16) = b"
    by (simp add: mult_div_mod_eq)
  ultimately show ?case using Cons.IH by (simp add: EncodeToString_def)
qed (simp add: EncodeToString_def)

lemma hexPreview_take: "hexPreview data = EncodeToString (take 64 data)"
  by (simp add: hexPreview_def hexPreviewBytes_def Let_def)

end
