(* ===== verification/PacketProperties.thy ===== *)
theory PacketProperties
  imports DemoKernel PacketDecode
begin

text \<open>
  The properties of the path of one packet: \<^verbatim>\<open>internal/middleware\<close> (chain, loop guard,
  decoding for logs) and the reading, writing and forging of datagrams in
  \<^verbatim>\<open>internal/socket\<close>.
\<close>

section \<open>The loop guard\<close>

text \<open>
  The reference: what has passed is remembered for ever, and a packet passes unless one with
  its key passed less than a window ago. Nothing is ever swept.
\<close>

fun once_per_window :: "duration \<Rightarrow> (gotime \<times> packet) list \<Rightarrow> (gotime \<times> packet) list \<Rightarrow> (gotime \<times> packet) list" where
  "once_per_window w passed [] = []"
| "once_per_window w passed ((t, p) # xs) =
     (if list_ex (\<lambda>(t', p'). loopKeyForPacket p' = loopKeyForPacket p \<and> t < t' + w) passed
      then once_per_window w passed xs
      else (t, p) # once_per_window w (passed @ [(t, p)]) xs)"

text \<open>The entries that are live at an instant from \<open>now\<close> on are those of the packets that passed.\<close>

definition remembers :: "gotime \<Rightarrow> LoopGuard \<Rightarrow> (gotime \<times> packet) list \<Rightarrow> bool" where
  "remembers now g passed \<longleftrightarrow>
     (\<forall>(t, p) \<in> set passed. t \<le> now)
     \<and> (\<forall>t \<ge> now. \<forall>k. (\<exists>e. seen g k = Some e \<and> t < e) \<longleftrightarrow>
          (\<exists>(t', p') \<in> set passed. loopKeyForPacket p' = k \<and> t < t' + window g))"

lemma remembers_suppressed:
  "remembers now g passed \<Longrightarrow> suppressed now g p \<longleftrightarrow>
   list_ex (\<lambda>(t', p'). loopKeyForPacket p' = loopKeyForPacket p \<and> now < t' + window g) passed"
  unfolding remembers_def suppressed_def list_ex_iff by blast

lemma remembers_later:
  assumes "remembers now g passed" and "now \<le> t"
  shows "remembers t g passed"
proof -
  have "\<forall>(t', p) \<in> set passed. t' \<le> t" using assms unfolding remembers_def by (blast intro: order.trans)
  moreover have "now \<le> t'" if "t \<le> t'" for t' using assms(2) that by (rule order.trans)
  ultimately show ?thesis using assms(1) unfolding remembers_def by blast
qed

lemma remembers_Process:
  assumes rem: "remembers now g passed" and p: "LoopGuard_Process now g pkt = (g', pkt')" and "\<not> suppressed now g pkt"
  shows "remembers now g' (passed @ [(now, pkt)])"
proof -
  let ?k = "loopKeyForPacket pkt"
  have g': "seen g' = (seen (LoopGuard_sweep now g))(?k \<mapsto> now + window g)" "window g' = window g"
    using p assms(3) by (auto simp: LoopGuard_Process_cases)
  have old: "(\<exists>e. seen g k = Some e \<and> t < e) \<longleftrightarrow> (\<exists>(t', p') \<in> set passed. loopKeyForPacket p' = k \<and> t < t' + window g)"
    if "now \<le> t" for t k using rem that unfolding remembers_def by blast
  have le: "t' \<le> now" if "(t', p') \<in> set passed" for t' p' using rem that unfolding remembers_def by blast
  have "(\<exists>e. seen g' k = Some e \<and> t < e) \<longleftrightarrow>
      (\<exists>(t', p') \<in> set (passed @ [(now, pkt)]). loopKeyForPacket p' = k \<and> t < t' + window g)"
    if t: "now \<le> t" for t k
  proof (cases "k = ?k")
    case True
    then have "(\<exists>e. seen g' k = Some e \<and> t < e) \<longleftrightarrow> t < now + window g" by (simp add: g')
    also have "\<dots> \<longleftrightarrow> (\<exists>(t', p') \<in> set (passed @ [(now, pkt)]). loopKeyForPacket p' = k \<and> t < t' + window g)"
      using le True by fastforce
    finally show ?thesis .
  next
    case False
    then have "(\<exists>e. seen g' k = Some e \<and> t < e) \<longleftrightarrow> (\<exists>e. seen (LoopGuard_sweep now g) k = Some e \<and> t < e)"
      by (simp add: g')
    also have "\<dots> \<longleftrightarrow> (\<exists>e. seen g k = Some e \<and> t < e)"
      using seen_sweep_fresh [of now _ g k] t by (metis order.strict_trans1)
    also have "\<dots> \<longleftrightarrow> (\<exists>(t', p') \<in> set (passed @ [(now, pkt)]). loopKeyForPacket p' = k \<and> t < t' + window g)"
      using old [OF t] False by auto
    finally show ?thesis .
  qed
  moreover have "\<forall>(t, p) \<in> set (passed @ [(now, pkt)]). t \<le> now" using le by auto
  ultimately show ?thesis unfolding remembers_def g'(2) by blast
qed

lemma guard_run_reference:
  assumes "sorted (map fst xs)" and "\<And>x. x \<in> set xs \<Longrightarrow> now \<le> fst x" and "remembers now g passed"
    and "\<And>x. x \<in> set xs \<Longrightarrow> Data (snd x) \<noteq> None"
  shows "snd (guard_run g xs) = once_per_window (window g) passed xs"
  using assms
proof (induction xs arbitrary: now g passed)
  case (Cons x xs)
  obtain t pkt where x: "x = (t, pkt)" by fastforce
  have t: "now \<le> t" using Cons.prems(2) [of x] x by simp
  have rem: "remembers t g passed" using remembers_later [OF Cons.prems(3) t] .
  have tail: "sorted (map fst xs)" "\<And>y. y \<in> set xs \<Longrightarrow> t \<le> fst y" "\<And>y. y \<in> set xs \<Longrightarrow> Data (snd y) \<noteq> None"
    using Cons.prems(1,4) x by auto
  obtain g' pkt' where p: "LoopGuard_Process t g pkt = (g', pkt')" by fastforce
  show ?case
  proof (cases "suppressed t g pkt")
    case True
    with p have "g' = g" "Data pkt' = None" by (auto simp: LoopGuard_Process_cases)
    moreover obtain g'' ys where r: "guard_run g xs = (g'', ys)" by fastforce
    ultimately have "snd (guard_run g (x # xs)) = snd (guard_run g xs)" using p by (simp add: x)
    with Cons.IH [OF tail(1,2) rem tail(3)] remembers_suppressed [OF rem, of pkt] True show ?thesis by (simp add: x)
  next
    case False
    with p have pkt': "pkt' = pkt" by (auto simp: LoopGuard_Process_cases)
    have d: "Data pkt \<noteq> None" using Cons.prems(4) [of x] x by simp
    have "snd (guard_run g' xs) = once_per_window (window g') (passed @ [(t, pkt)]) xs"
      by (rule Cons.IH [OF tail(1,2) remembers_Process [OF rem p False] tail(3)])
    moreover obtain g'' ys where r: "guard_run g' xs = (g'', ys)" by fastforce
    ultimately have "snd (guard_run g (x # xs)) = (t, pkt) # once_per_window (window g) (passed @ [(t, pkt)]) xs"
      using p pkt' d window_Process [OF p] by (simp add: x)
    then show ?thesis using remembers_suppressed [OF rem, of pkt] False by (simp add: x)
  qed
qed simp

text \<open>
  C4. The guard, which sweeps its map and forgets, passes the same packets as the reference
  that remembers everything: the cleanup is invisible.
\<close>

theorem guard_is_reference:
  assumes "sorted (map fst xs)" and "\<And>x. x \<in> set xs \<Longrightarrow> Data (snd x) \<noteq> None"
  shows "snd (guard_run (NewLoopGuard w) xs) = once_per_window (if w \<le> 0 then 250 * millisecond else w) [] xs"
proof (cases xs)
  case (Cons x ys)
  have "remembers (fst x) (NewLoopGuard w) []" by (simp add: remembers_def NewLoopGuard_def)
  moreover have "fst x \<le> fst y" if "y \<in> set xs" for y using assms(1) that Cons by auto
  ultimately have "snd (guard_run (NewLoopGuard w) xs) = once_per_window (window (NewLoopGuard w)) [] xs"
    using assms by (intro guard_run_reference)
  then show ?thesis by (simp add: NewLoopGuard_def DefaultLoopGuardWindow_def)
qed simp

definition demo_datagram :: "byte list \<Rightarrow> packet" where
  "demo_datagram d =
     \<lparr>Data = Some d, Source = None, Group = None, TTL = 0, SourcePath = ''/a''\<rparr>"

theorem guard_is_reference_witness:
  "map fst (snd (guard_run (NewLoopGuard 10) [(1, demo_datagram [1]), (5, demo_datagram [1]), (11, demo_datagram [1])])) = [1, 11]"
proof -
  let ?xs = "[(1, demo_datagram [1]), (5, demo_datagram [1]), (11, demo_datagram [1])]"
  have "snd (guard_run (NewLoopGuard 10) ?xs) = once_per_window (if (10::int) \<le> 0 then 250 * millisecond else 10) [] ?xs"
    by (rule guard_is_reference) (auto simp: demo_datagram_def)
  then show ?thesis by simp
qed

lemma guard_run_inv:
  assumes "sorted (map fst xs)" and "guard_inv t0 g" and "\<And>x. x \<in> set xs \<Longrightarrow> t0 \<le> fst x"
    and "\<And>x. x \<in> set xs \<Longrightarrow> fst x \<le> now" and "t0 \<le> now"
  shows "guard_inv now (fst (guard_run g xs)) \<and> window (fst (guard_run g xs)) = window g"
  using assms
proof (induction g xs arbitrary: t0 rule: guard_run.induct)
  case (1 g)
  then show ?case using guard_inv_mono by auto
next
  case (2 g t pkt xs)
  obtain g' pkt' where p: "LoopGuard_Process t g pkt = (g', pkt')" by fastforce
  have tt: "t0 \<le> t" "t \<le> now" using "2.prems"(3,4) [of "(t, pkt)"] by simp_all
  have "guard_inv t g'" by (rule guard_inv_Process [OF "2.prems"(2) tt(1) p])
  moreover have "sorted (map fst xs)" "\<And>x. x \<in> set xs \<Longrightarrow> t \<le> fst x" using "2.prems"(1) by auto
  ultimately have "guard_inv now (fst (guard_run g' xs)) \<and> window (fst (guard_run g' xs)) = window g'"
    using "2.IH" [OF p [symmetric], of t] "2.prems"(4) tt(2) by (meson list.set_intros(2))
  moreover obtain g2 ys where "guard_run g' xs = (g2, ys)" by fastforce
  ultimately show ?case using p window_Process [OF p] by simp
qed

text \<open>
  C38. The guard's memory is bounded: after a packet has passed, an entry remains only for a
  packet that passed within the last two windows.
\<close>

theorem guard_memory_bounded:
  assumes "sorted (map fst xs @ [now])" and "\<And>x. x \<in> set xs \<Longrightarrow> 0 \<le> fst x" and "0 \<le> now"
    and "LoopGuard_Process now (fst (guard_run (NewLoopGuard w) xs)) pkt = (g', pkt')" and "Data pkt' \<noteq> None"
    and "seen g' k = Some e"
  shows "now - window g' < e \<and> e \<le> now + window g' \<and> finite (dom (seen g'))"
proof -
  let ?g = "fst (guard_run (NewLoopGuard w) xs)"
  have inv: "guard_inv now ?g"
    using guard_run_inv [of xs 0 "NewLoopGuard w" now] guard_inv_New [of 0 w] assms(1-3)
    by (auto simp: sorted_append)
  have "window g' = window ?g" using window_Process [OF assms(4)] .
  with guard_memory [OF inv order_refl assms(4,5,6)] guard_invD(2) [OF guard_inv_Process [OF inv order_refl assms(4)]]
  show ?thesis by simp
qed

theorem guard_memory_bounded_witness:
  "\<exists>g'. LoopGuard_Process 30 (fst (guard_run (NewLoopGuard 10) [(1, demo_datagram [1])])) (demo_datagram [1])
      = (g', demo_datagram [1]) \<and> 20 < (40 :: int) \<and> finite (dom (seen g'))"
proof -
  let ?g = "fst (guard_run (NewLoopGuard 10) [(1, demo_datagram [1])])"
  have "\<not> suppressed 1 (NewLoopGuard 10) (demo_datagram [1])" by (simp add: suppressed_def NewLoopGuard_def)
  then have "?g = (LoopGuard_sweep 1 (NewLoopGuard 10))\<lparr>seen := (seen (LoopGuard_sweep 1 (NewLoopGuard 10)))
      (loopKeyForPacket (demo_datagram [1]) \<mapsto> 11)\<rparr>"
    by (simp add: LoopGuard_Process_cases NewLoopGuard_def demo_datagram_def)
  then have g: "seen ?g (loopKeyForPacket (demo_datagram [1])) = Some 11" "window ?g = 10"
    by (simp_all add: NewLoopGuard_def)
  then have "\<not> suppressed 30 ?g (demo_datagram [1])" by (simp add: suppressed_def)
  then obtain g' where g': "LoopGuard_Process 30 ?g (demo_datagram [1]) = (g', demo_datagram [1])"
    "seen g' (loopKeyForPacket (demo_datagram [1])) = Some 40"
    unfolding LoopGuard_Process_cases g(2) by simp
  from guard_memory_bounded [OF _ _ _ g'(1) _ g'(2)] g'(1) show ?thesis
    by (simp add: demo_datagram_def)
qed

section \<open>Forged datagrams\<close>

text \<open>
  C25. The checksum is the one's complement of the one's complement sum of the pseudo header
  and the segment, computed without a bound; the 32-bit accumulator never wraps.
\<close>

theorem checksum_reference:
  assumes "To4 source = Some s" and "To4 destination = Some d" and "length payload \<le> 65535"
  shows "map_option unat (udpChecksum source destination payload) = Some (65535 - pseudo_sum s d payload mod 65535)"
proof -
  obtain c where c: "udpChecksum source destination payload = Some c" "0 < unat c"
    "(pseudo_sum s d payload + unat c) mod 65535 = 0"
    using udpChecksum_Some [OF assms] by blast
  let ?S = "pseudo_sum s d payload mod 65535"
  have "unat c < 2 ^ 16" using unsigned_less [of c] by simp
  then have le: "unat c \<le> 65535" by simp
  have "(?S + unat c) mod 65535 = 0" using c(3) by (simp add: mod_add_left_eq)
  moreover have "?S < 65535" by simp
  moreover have "?S + unat c = 65535"
  proof -
    from calculation(1) obtain q where q: "?S + unat c = 65535 * q" by (auto simp: mod_eq_0_iff_dvd dvd_def)
    with c(2) have "q \<noteq> 0" by (cases q) auto
    moreover have "q < 2" using q le \<open>?S < 65535\<close> by linarith
    ultimately have "q = 1" by simp
    with q show ?thesis by simp
  qed
  ultimately show ?thesis using c(1) by simp
qed

theorem checksum_reference_witness:
  "map_option unat (udpChecksum [10, 0, 0, 7] [224, 0, 0, 251] [1, 2, 3]) = Some 4327"
proof -
  have "To4 [10, 0, 0, 7] = Some [10, 0, 0, 7]" "To4 [224, 0, 0, 251] = Some [224, 0, 0, 251]" by (simp_all add: To4_def)
  from checksum_reference [OF this, of "[1, 2, 3]"] show ?thesis by (simp add: pseudo_sum_def)
qed

fun carry_rounds :: "nat \<Rightarrow> 32 word \<Rightarrow> 32 word option" where
  "carry_rounds 0 acc = (if 0xffff < acc then None else Some acc)"
| "carry_rounds (Suc n) acc = (if 0xffff < acc then carry_rounds n ((acc AND 0xffff) + drop_bit 16 acc) else Some acc)"

text \<open>
  C39. The end-around carry loop ends: two rounds are enough for every 32-bit sum, and it
  ends with the function's value.
\<close>

theorem carry_terminates: "carry_rounds 2 acc = Some (fold_carry acc)"
proof -
  let ?f = "\<lambda>acc :: 32 word. (acc AND 0xffff) + drop_bit 16 acc"
  have small: "fold_carry a = a" if "\<not> 0xffff < a" for a using that by (simp add: fold_carry.simps [of a])
  have big: "fold_carry a = fold_carry (?f a)" if "0xffff < a" for a
    using that fold_carry.simps [of a] by (simp only: if_True)
  have step: "unat (?f a) = unat a mod 65536 + unat a div 65536" for a by (rule fold_carry_step)
  have "\<not> 0xffff < ?f (?f acc)"
  proof -
    have "unat acc < 2 ^ 32" using unsigned_less [of acc] by simp
    then have "unat acc div 65536 \<le> 65535" by (simp add: less_mult_imp_div_less)
    then have 1: "unat (?f acc) \<le> 131070" unfolding step using mod_less_divisor [of 65536 "unat acc"] by linarith
    have "unat (?f (?f acc)) \<le> 65535"
    proof (cases "unat (?f acc) < 65536")
      case True
      then show ?thesis unfolding step [of "?f acc"] by simp
    next
      case False
      then have "unat (?f acc) div 65536 = 1" using 1 by (simp add: div_nat_eqI)
      moreover from this have "unat (?f acc) mod 65536 = unat (?f acc) - 65536"
        by (metis mult.right_neutral minus_mult_div_eq_mod)
      ultimately show ?thesis unfolding step [of "?f acc"] using 1 by simp
    qed
    then show ?thesis by (simp add: word_less_nat_alt not_less)
  qed
  then show ?thesis using small big by (simp add: numeral_2_eq_2)
qed

text \<open>
  C12. A forged datagram says what it was made from: a receiver reads the ports, the length
  and the data back from it, and its checksum test accepts it.
\<close>

theorem forged_datagram:
  assumes "To4 (addr_IP source) = Some s" and "To4 (addr_IP grp) = Some d" and "length data \<le> 65507"
  shows "\<exists>seg c. udp_payload source grp data = Some seg \<and> udp_verifies s d seg
    \<and> parse_udp seg = (word_of_int (addr_Port source), word_of_int (addr_Port grp), word_of_nat (8 + length data), c, data)
    \<and> c \<noteq> 0"
  by (rule udp_payload_verifies [OF assms]) blast

definition demo_peer :: udp_addr where
  "demo_peer = \<lparr>addr_IP = [10, 0, 0, 7], addr_Port = 5353, addr_Zone = ''''\<rparr>"

definition demo_mcast :: udp_addr where
  "demo_mcast = \<lparr>addr_IP = v4InV6Prefix @ [239, 255, 255, 250], addr_Port = 1900, addr_Zone = ''''\<rparr>"

lemma demo_To4: "To4 (addr_IP demo_peer) = Some [10, 0, 0, 7]" "To4 (addr_IP demo_mcast) = Some [239, 255, 255, 250]"
  by (simp_all add: To4_def demo_peer_def demo_mcast_def v4InV6Prefix_def)

theorem forged_datagram_witness:
  "\<exists>seg c. udp_payload demo_peer demo_mcast [1, 2, 3] = Some seg \<and> udp_verifies [10, 0, 0, 7] [239, 255, 255, 250] seg
     \<and> parse_udp seg = (5353, 1900, 11, c, [1, 2, 3])"
  using forged_datagram [OF demo_To4, of "[1, 2, 3]"]
  by (auto simp: demo_peer_def demo_mcast_def)

section \<open>Reading and writing\<close>


definition demo_sending :: MulticastSocket where
  "demo_sending = \<lparr>sock_conn = 3, sock_rawConn = Some 4, sock_group = demo_mcast, interfaceIndex = 2,
     interfaceIndices = [2, 5], recentTx = None\<rparr>"



text \<open>
  The restriction to a non-empty payload is needed: an empty datagram that one interface
  took and another refused is reported as an error, since its count is 0 as well.
\<close>

theorem empty_datagram_misreported:
  "\<exists>err s' w'. WriteToGroup
     (demo_api\<lparr>packetConn_WriteTo := \<lambda>c d i g w.
        if i = 2 then (Inl (Sentinel (OSErr ''ENETDOWN'')), w) else (Inr (length d), w\<lparr>k_wire := k_wire w @ [(d, i)]\<rparr>)\<rparr>)
     demo_sending [] None 4 demo_boot = Some ((0, Some err), s', w') \<and> k_wire w' = [([], 5)]"
  by (simp add: WriteToGroup_def write_copies_def preserve_source_def egressInterfaceIndices_def demo_sending_def
      demo_api_def k_try_def demo_boot_def Let_def markSent_def)

text \<open>
  The payload is marked as sent before anything reaches the wire, so its loopback copy
  is recognised for 500 ms, whatever the write then returns.
\<close>

lemma write_marks_echo:
  assumes "WriteToGroup api s data source ttl w = Some (r, s', w')"
  shows "isSelfEcho (recentTx s') t data \<longleftrightarrow> t < fst (time_Now api w) + 500 * millisecond"
  unfolding WriteToGroup_marks [OF assms] markSent_echo selfEchoWindow_def ..

text \<open>
  C24. After any sequence of writes, a payload is taken for the socket's own echo exactly when
  a payload with its hash was written within the last 500 ms; that older entries are pruned
  makes no difference.
\<close>

theorem echo_window:
  assumes "recentTx s = None" and "sorted (map fst xs)" and "\<And>x. x \<in> set xs \<Longrightarrow> fst x \<le> now"
  shows "isSelfEcho (recentTx (sent_history s xs)) now data \<longleftrightarrow>
    (\<exists>(t, d) \<in> set xs. md5_Sum d = md5_Sum data \<and> now < t + 500 * millisecond)"
  using sent_history_echo [OF assms] by (simp add: selfEchoWindow_def)

theorem echo_window_witness:
  "isSelfEcho (recentTx (sent_history demo_sending [(0, [1]), (100, [2])])) 499999999 [1]"
proof -
  have "isSelfEcho (recentTx (sent_history demo_sending [(0, [1]), (100, [2])])) 499999999 [1] \<longleftrightarrow>
    (\<exists>(t, d) \<in> set [(0, [1]), (100, [2])]. md5_Sum d = md5_Sum [1] \<and> 499999999 < t + 500 * millisecond)"
    by (rule echo_window) (auto simp: demo_sending_def)
  then show ?thesis by (simp add: millisecond_def)
qed

text \<open>
  \<^verbatim>\<open>ReadFrom\<close> returns the first datagram, or error, that is no echo, and keeps waiting
  while there is none.
\<close>

lemma read_skips_echoes:
  "ReadFrom None evs = map_option read_result (find (\<lambda>ev. \<not> discards ev) evs)
   \<and> ReadFrom (Some err) evs = Some (Inl err)"
  by (simp add: ReadFrom_def ReadFrom_loop_find)

text \<open>
  A packet without a TTL leaves the TTL of the socket as it is: the ordinary copies then
  carry what an earlier packet set.
\<close>

lemma write_keeps_ttl:
  assumes "ttl \<le> 0"
  shows "WriteToGroup (api\<lparr>SetMulticastTTL := f\<rparr>) s data source ttl w = WriteToGroup api s data source ttl w"
  by (rule WriteToGroup_keeps_TTL [OF assms])

section \<open>Packets in the log\<close>

text \<open>
  C40. Decoding a packet for the log never panics, whatever its bytes, and its first attribute
  names the protocol.
\<close>

theorem decode_total:
  "\<exists>attrs v. decodePacket env pkt = Some attrs \<and> hd attrs = (''protocol'', AString v)
     \<and> v \<in> {''mdns'', ''ssdp'', ''unknown''}"
proof -
  obtain attrs where a: "decodePacket env pkt = Some attrs" using decodePacket_Some [of env pkt] by blast
  then have "hd attrs \<in> (\<lambda>v. (''protocol'', AString v)) ` {''mdns'', ''ssdp'', ''unknown''}"
    using decodeMDNS_protocol decodeSSDP_protocol
    by (auto simp: decodePacket_def unknownPacketAttrs_def decodeErrorAttrs_def Let_def
        split: option.splits sum.splits if_splits)
  with a show ?thesis by auto
qed

text \<open>C32. A preview is the hexadecimal text of the first 64 bytes: decoding it gives them back.\<close>

theorem preview_roundtrip: "hex_decode (hexPreview data) = Some (take 64 data)"
  by (simp add: hexPreview_take hex_decode_encode)

end
