(* ===== verification/MainProperties.thy ===== *)
theory MainProperties
  imports RelayMain ControlProperties HostProperties PacketProperties
begin

text \<open>
  Properties that span the packages: an accepted configuration is one the control server
  accepts and whose groups the send workers can write to; a packet's way from one namespace
  to another; the start of the control server; how the process of \<^verbatim>\<open>cmd/relay\<close> ends. Witnesses run the process on the kernel of
  \<open>DemoKernel\<close> and on the relay of \<open>RelayProperties\<close>.
\<close>

section \<open>From the configuration to the packets\<close>

























section \<open>The start of the control server\<close>

text \<open>
  C34. Starting the control server leaves exactly its listener open, or nothing: whatever step
  fails, every descriptor it opened on the way is closed again.
\<close>

theorem server_start:
  assumes "unix_laws api opn" and "NewUnixServer api p t m g w = (x, w')"
  shows "case x of
      Inl e \<Rightarrow> opn w' = opn w
    | Inr sv \<Rightarrow> sv_listener sv \<notin> opn w \<and> opn w' = insert (sv_listener sv) (opn w)
        \<and> server_args_error p t m = None"
  using NewUnixServer_opn [OF assms] NewUnixServer_args(1) [of api p t m g w _ w'] assms(2) by (cases x) auto

definition demo_unix :: "bool \<Rightarrow> nat set unix_api" where
  "demo_unix chmods =
     \<lparr>LookupGroup = (\<lambda>g w. (Inr ''20'', w)), MkdirAll = (\<lambda>d m w. (None, w)),
      Stat = (\<lambda>p w. (Inl (Sentinel NotExist), w)),
      Dial = (\<lambda>p w. (Inl (Sentinel ConnRefused), w)), Conn_Close = (\<lambda>c w. (None, w - {c})),
      Remove_file = (\<lambda>p w. (None, w)),
      Listen = (\<lambda>p w. if 7 \<in> w then (Inl (Sentinel (OSErr ''EADDRINUSE'')), w) else (Inr 7, insert 7 w)),
      Listener_Close = (\<lambda>l w. (None, w - {l})), Chown = (\<lambda>p g w. (None, w)),
      Chmod = (\<lambda>p m w. (if chmods then None else Some (Sentinel (OSErr ''EPERM'')), w)), Quote = (\<lambda>s. s)\<rparr>"

lemma demo_unix_laws: "unix_laws (demo_unix chmods) (\<lambda>w. w)"
  by (auto simp: unix_laws_def keeps_open_def opens_one_def demo_unix_def split: if_splits)

lemma demo_NewUnixServer:
  "NewUnixServer (demo_unix chmods) ''/run/r.sock'' 3000000000 432 '''' {} =
     (if chmods then (Inr \<lparr>sv_listener = 7, sv_socketPath = ''/run/r.sock'', sv_timeout = 3000000000\<rparr>, {7})
      else (Inl (Wrapf ''failed to set control socket permissions: '' (Sentinel (OSErr ''EPERM'')) ''''), {}))"
proof -
  have "server_args_error ''/run/r.sock'' 3000000000 432 = None"
    by (simp add: server_args_error_def)
  moreover have "TrimSpace '''' = ''''" by code_simp
  ultimately show ?thesis
    by (simp add: NewUnixServer_def resolveSocketGroup_def removeStaleSocket_def protect_socket_def
        abandon_listener_def demo_unix_def Let_def)
qed

theorem server_start_witness:
  "snd (NewUnixServer (demo_unix False) ''/run/r.sock'' 3000000000 432 '''' {}) = {}"
proof -
  let ?x = "NewUnixServer (demo_unix False) ''/run/r.sock'' 3000000000 432 '''' {}"
  have "?x = (fst ?x, snd ?x)" by simp
  from server_start [OF demo_unix_laws this] show ?thesis by (simp add: demo_NewUnixServer)
qed



section \<open>The end of the process\<close>

text \<open>The process on the environment of \<open>RelayProperties\<close>.\<close>

definition demo_cfg :: config where
  "demo_cfg = demo_config\<lparr>Groups := [demo_group], InitialNamespaces := [''/a'', ''/b'']\<rparr>"

abbreviation demo_main_reachable :: "bool \<Rightarrow> (nat, nat set) process \<Rightarrow> bool" where
  "demo_main_reachable chmods m \<equiv> main_reachable demo_env (demo_unix chmods) demo_cfg demo_t0 0 {} m"

text \<open>The control server cannot be started: the process waits for the relay and fails.\<close>

definition demo_failing :: "(nat, nat set) process" where
  "demo_failing = setup_control (demo_unix False) demo_cfg (main_start demo_cfg demo_t0 0 {})"

lemma demo_failing_eq:
  "demo_failing = \<lparr>m_pc = MFailed (Wrapf (''failed to start control server ('' @ ''/run/r.sock'' @ ''): '')
       (Wrapf ''failed to set control socket permissions: '' (Sentinel (OSErr ''EPERM'')) '''') ''''),
     m_cause = Some (Wrapf ''failed to set control socket permissions: '' (Sentinel (OSErr ''EPERM'')) ''''),
     m_control = NotStarted, m_relay = (relay_New [demo_group] demo_t0 0)\<lparr>r_ctxDone := True\<rparr>, m_unix = {}\<rparr>"
  by (simp add: demo_failing_def setup_control_def main_start_def demo_cfg_def demo_config_def demo_NewUnixServer cancel_def)

lemma demo_reachable_failing: "demo_main_reachable False demo_failing"
  unfolding demo_failing_def
  by (rule main_reachable_step [OF main_reachable_start main_step.set_up]) (simp add: main_start_def)

lemma demo_returned:
  "\<exists>m e. demo_main_reachable False m \<and> m_pc m = MReturned e"
proof -
  have shape: "shape_inv (m_relay demo_failing)"
    by (rule reachable_shape [OF main_relay_reachable [OF demo_reachable_failing]])
  have "\<exists>m e. (main_step demo_env (demo_unix False) demo_cfg)\<^sup>*\<^sup>* demo_failing m \<and> m_pc m = MReturned e"
    by (rule main_finishes [OF shape]) (simp_all add: demo_failing_eq ctx_done_def)
  with main_reachable_steps [OF demo_reachable_failing] show ?thesis by blast
qed

text \<open>
  C8. When the process ends, the relay has returned, the control server is not serving, and
  every instance that was ever built is torn down.
\<close>

theorem exit_is_clean:
  assumes "main_reachable env api cfg now w u m" and "m_pc m = MReturned e"
  shows "run_returned (m_relay m) \<and> (\<forall>sv. m_control m \<noteq> Serving sv)
    \<and> (\<forall>i inst. r_heap (m_relay m) i = Some inst \<longrightarrow> ni_done inst \<and> ni_joined inst)"
proof -
  have ret: "run_returned (m_relay m)" "\<forall>sv. m_control m \<noteq> Serving sv"
    using main_reachable_inv [OF assms(1)] assms(2) by (simp_all add: process_inv_def)
  then have pc: "c_pc (m_relay m) = CStopping []" by (simp add: run_returned_def)
  have "ni_done inst \<and> ni_joined inst" if "r_heap (m_relay m) i = Some inst" for i inst
    using life_invD(1-3) [OF reachable_life [OF main_relay_reachable [OF assms(1)]], of i] that pc
    by (auto simp: flags_def)
  with ret show ?thesis by blast
qed

theorem exit_is_clean_witness:
  "\<exists>m e. demo_main_reachable False m \<and> m_pc m = MReturned e \<and> run_returned (m_relay m)"
  using demo_returned exit_is_clean [where ?'a = nat and ?'b = "nat set"] by meson





end
