(* ===== verification/Spec2Isabelle.thy ===== *)
theory Spec2Isabelle
  imports MainProperties
begin

text \<open>
  \<^bold>\<open>The program.\<close> \<^verbatim>\<open>netns-mcast-relay\<close> relays multicast datagrams (mDNS, SSDP) between Linux
  network namespaces. In every active namespace it holds one socket per multicast group; a
  packet read from a socket goes, unless a middleware drops it, to the send queue of every
  other active namespace and is written there, with the original sender's address forged
  into a raw IP packet, and as an ordinary datagram on every usable interface. Namespaces
  are added and removed through an HTTP API on a Unix socket; a coordinator collects these
  intents and applies them together when none has come for 300 ms.

  \<^bold>\<open>Theories and the code they model\<close> (definitions carry the names of the Go functions
  where Isabelle allows it; a method has a prefix for its receiver where names clash).

  \<^item> \<open>Prelude\<close>: bytes, instants and durations, error values with \<^verbatim>\<open>errors.Is\<close> and
    \<^verbatim>\<open>errors.Join\<close>, iteration over a Go map as any enumeration of its domain.
    \<open>GoStrings\<close>, \<open>GoNet\<close>, \<open>MD5\<close>: what the program calls of \<^verbatim>\<open>strings\<close>, \<^verbatim>\<open>path/filepath\<close>,
    \<^verbatim>\<open>regexp\<close>, \<^verbatim>\<open>net\<close>, \<^verbatim>\<open>encoding/binary\<close> and \<^verbatim>\<open>crypto/md5\<close>, computed and not assumed.
  \<^item> \<open>Netns\<close> (\<^verbatim>\<open>internal/netns/netns.go\<close>): \<^verbatim>\<open>CanonicalizePath\<close>, \<^verbatim>\<open>Open\<close>, \<^verbatim>\<open>Close\<close>, and \<^verbatim>\<open>Do\<close> with
    the thread lock and both deferred functions.
  \<^item> \<open>Config\<close> (\<^verbatim>\<open>internal/config/config.go\<close>): \<^verbatim>\<open>Parse\<close> from the flag assignments on, the octal
    mode parser, namespace paths, multicast groups.
  \<^item> \<open>Middleware\<close> (\<^verbatim>\<open>internal/middleware/middleware.go\<close>, \<^verbatim>\<open>loop_guard.go\<close>): \<^verbatim>\<open>Chain\<close>, and the
    \<^verbatim>\<open>LoopGuard\<close> with its expiry map and sweep. \<open>PacketDecode\<close> (\<^verbatim>\<open>packet_decode.go\<close>): the
    decoding of mDNS and SSDP packets for log lines. \<open>Logging\<close> (\<^verbatim>\<open>internal/logging\<close>):
    \<^verbatim>\<open>DebugLazy\<close>. Only tests call \<^verbatim>\<open>decodePacket\<close> at this commit.
  \<^item> \<open>Udp\<close>, \<open>Socket\<close>, \<open>SocketIO\<close> (\<^verbatim>\<open>internal/socket/multicast.go\<close>): the forged datagram and its
    checksum on \<open>32 word\<close> and \<open>16 word\<close>; construction of a socket inside a namespace, with
    every failing branch; \<^verbatim>\<open>ReadFrom\<close> and the suppression of the socket's own echoes;
    \<^verbatim>\<open>WriteToGroup\<close> with the raw and the ordinary copies.
  \<^item> \<open>Relay\<close>, \<open>Coordinator\<close>, \<open>RelaySteps\<close> (\<^verbatim>\<open>internal/relay/relay.go\<close>): \<open>Relay\<close> has the
    instances and their construction with rollback; \<open>Coordinator\<close> the state of a running
    relay (record \<open>relay\<close>) and one definition per turn of a goroutine; \<open>RelaySteps\<close> the
    relation \<open>relay_step\<close>, one turn of any goroutine, and \<open>reachable\<close>. The channel sends,
    the selects and the teardown's stages are separate steps, so every interleaving at
    these points is covered. The fields \<open>h_...\<close> of the state are histories (packets
    received, processed, fanned out and written; intents accepted since the last pass) that
    no operation reads, and that the properties speak of.
  \<^item> \<open>NamespaceController\<close>, \<open>Control\<close>, \<open>ControlServer\<close> (\<^verbatim>\<open>internal/control/server.go\<close>): the
    interface the API calls; request decoding and validation, the six handlers and the
    container map, the mux; \<^verbatim>\<open>NewUnixServer\<close>, stale sockets, the group lookup, \<^verbatim>\<open>Run\<close>.
  \<^item> \<open>RelayMain\<close> (\<^verbatim>\<open>cmd/relay/main.go\<close>): \<^verbatim>\<open>run\<close> as the relation \<open>main_step\<close> over the relay's
    steps, the control server's goroutine and the signal handler; the first cancellation
    fixes the cause.
  \<^item> \<open>Descriptors\<close>, \<open>DemoKernel\<close>: the open descriptors across the packages, and a small
    kernel on which the witnesses run the code.

  \<^bold>\<open>Interfaces.\<close> Three contracts between components are locales, each interpreted on the
  model's own definitions: \<open>middleware\<close> (a component passes a packet on unchanged or drops
  it), for the loop guard and for the chain; \<open>namespace_controller\<close> (a call that reports
  success has recorded its intent, one that reports an error has recorded it or nothing),
  for the relay behind the control API; \<open>socket_package\<close> (sockets keep their group, writes
  to a sendable group return), for \<^verbatim>\<open>internal/socket\<close> under the relay.

  \<^bold>\<open>What the lemmas show\<close> (the properties proper carry ids \<open>C1\<close> to \<open>C40\<close>).

  \<^item> \<open>RelaySteps\<close>, \<open>RelayInvariants\<close>, \<open>RelayDelivery\<close>, \<open>RelayProperties\<close>: for every schedule
    and every answer of the kernel, packets go unaltered to other namespaces only and on
    their group's socket, two packets with one loop key are 250 ms apart, queues are
    bounded, the active set is the set of live instances, and a reconcile pass gives what
    applying the accepted intents one by one would. From every reachable state \<^verbatim>\<open>Run\<close> can
    return, and a packet that can be read can be written in every other namespace with room.
  \<^item> \<open>PacketProperties\<close>: the loop guard with its sweep decides as a guard that never forgets;
    the echo window; the checksum against the unbounded sum of RFC 768 and the forged
    datagram's acceptance by a receiver; the count and the error a write reports; decoding
    does not panic.
  \<^item> \<open>HostProperties\<close>: \<^verbatim>\<open>Do\<close> confines its closure and restores the thread's namespace or says
    that it could not; which descriptors a construction, a failure and a close leave open;
    what every accepted configuration satisfies.
  \<^item> \<open>ControlProperties\<close>: the status, the intents and the container map of every request;
    the container map as an abstract set of namespaces.
  \<^item> \<open>MainProperties\<close>: from an accepted configuration to writes that never panic; the start
    of the server leaves its listener or nothing; the process ends cleanly, fails only for
    its control server, and can end from every state once cancelled.

  \<^bold>\<open>Bounds.\<close> No definition has fuel. The carry loop of the checksum is a \<open>function\<close> with a
  measure, and two rounds suffice for every 32-bit sum. The read loop of a socket consumes a list of kernel events and is \<open>None\<close> when
  they run out, which is a read that still waits. Channels hold 1000 entries as in the code.
  A panic of the Go code is \<open>None\<close>, and the theorems exclude it.

  \<^bold>\<open>Parameters\<close>, because their code is not part of the repository: the kernel's namespace
  calls (\<open>netns_api\<close>), \<^verbatim>\<open>net\<close> and \<^verbatim>\<open>x/net/ipv4\<close> on sockets (\<open>sock_api\<close>), the file system and
  user database (\<open>unix_api\<close>), the flag package and name resolution (\<open>config_env\<close>),
  \<^verbatim>\<open>encoding/json\<close> (\<open>json_api\<close>), the DNS parser, upper case outside ASCII and the verb
  \<^verbatim>\<open>%q\<close>. Where a theorem needs documented behaviour of these it is a named hypothesis
  (\<open>netns_laws\<close>, \<open>sock_laws\<close>, \<open>fd_laws\<close>, \<open>unix_laws\<close>), which \<open>DemoKernel\<close> or a concrete record
  of the witness satisfies.

  \<^bold>\<open>Not modelled.\<close> Log lines (except \<^verbatim>\<open>DebugLazy\<close> and the attributes \<^verbatim>\<open>decodePacket\<close>
  computes), the usage text of the flags, the exit code \<^verbatim>\<open>main\<close> makes of the result of \<^verbatim>\<open>run\<close>,
  the HTTP protocol itself (a request arrives as route, content type, path value and body), the Go
  memory model below the granularity of a step, and the scripts and service files outside
  the Go code.

  \<^bold>\<open>What modelling showed.\<close> A failed socket construction can leak its raw connection
  (\<open>raw_connection_leaks\<close>), a constructed socket is dropped when \<^verbatim>\<open>Do\<close> fails afterwards
  (\<open>built_socket_leaks\<close>), \<^verbatim>\<open>Do\<close> unlocks a thread it could not restore
  (\<open>do_unlocks_in_foreign_namespace\<close>), a relative path whose text contains
  \<^verbatim>\<open>required\<close> gets the wrong message (\<open>relative_path_misreported\<close>), a namespace that two
  containers share is removed with the first (\<open>shared_namespace_removed\<close>), an upsert whose
  deadline passes after its intent was taken is forgotten (\<open>timed_out_upsert_orphaned\<close>), an
  empty datagram is misreported (\<open>empty_datagram_misreported\<close>), and an echo is recognized by
  its payload only. The comment on the echo window and a sentence of the README on the TTL
  (\<open>write_keeps_ttl\<close>) promise more than the code does.
\<close>

end
